theory Spec2Isabelle
  imports Main "HOL-Library.Word"
begin

unbundle bit_operations_syntax

section \<open>Exceptions\<close>

text \<open>
  Every C++ exception the server code throws or catches is a value. The catch clauses of
  the sources distinguish three classes: \<^verbatim>\<open>ConnectionError\<close> (rpc_connection.h, derived from
  \<^verbatim>\<open>std::runtime_error\<close>), \<^verbatim>\<open>FunctionNotFoundError\<close> (thrown and caught in
  \<^verbatim>\<open>process_json_request\<close>) and \<^verbatim>\<open>std::exception\<close>. \<open>JsonLogicError\<close> is jsoncpp's
  \<^verbatim>\<open>Json::LogicError\<close>, \<open>OtherStdException\<close> any further class derived from
  \<^verbatim>\<open>std::exception\<close>, and \<open>NonStdThrow\<close> a thrown object that is not derived from
  \<^verbatim>\<open>std::exception\<close> (\<^verbatim>\<open>throw 42;\<close>), which no handler of the sources catches.
\<close>

datatype exn =
    ConnectionError string
  | RuntimeError string
  | InvalidArgument string
  | JsonLogicError string
  | FunctionNotFoundError string
  | OtherStdException string
  | NonStdThrow

fun what :: "exn \<Rightarrow> string" where
  "what (ConnectionError m) = m"
| "what (RuntimeError m) = m"
| "what (InvalidArgument m) = m"
| "what (JsonLogicError m) = m"
| "what (FunctionNotFoundError m) = m"
| "what (OtherStdException m) = m"
| "what NonStdThrow = []"

text \<open>What \<^verbatim>\<open>catch (const std::exception&)\<close> catches.\<close>

fun is_std_exception :: "exn \<Rightarrow> bool" where
  "is_std_exception NonStdThrow = False"
| "is_std_exception _ = True"

section \<open>The transport under a connection\<close>

text \<open>
  \<^verbatim>\<open>send\<close>, \<^verbatim>\<open>recv\<close> and \<^verbatim>\<open>close\<close> are the operating system's. The socket is a state:
  the bytes the peer has sent and the connection has not read yet (\<open>inbox\<close>), the bytes
  the socket has accepted so far (\<open>outbox\<close>), the descriptors handed to \<^verbatim>\<open>close\<close>
  (\<open>released\<close>), and a script (\<open>sched\<close>) that says what each coming \<^verbatim>\<open>send\<close> or
  \<^verbatim>\<open>recv\<close> call does: \<open>Xfer k\<close> moves at most \<open>k\<close> bytes (never more than the caller
  asked for, nor more than there are), \<open>Fail e\<close> returns -1 with \<^verbatim>\<open>errno = e\<close>. A call
  made when the script is used up never returns: the result is \<open>None\<close>.
\<close>

type_synonym byte = "8 word"

datatype sys_event = Xfer nat | Fail int

datatype 'a sysret = Ret 'a | Errno int

record transport =
  inbox :: "byte list"
  outbox :: "byte list"
  sched :: "sys_event list"
  released :: "int list"

definition EINTR :: int where
  "EINTR = 4"

definition sys_send :: "byte list \<Rightarrow> transport \<Rightarrow> (nat sysret \<times> transport) option" where
  "sys_send buf t =
     (case sched t of
        [] \<Rightarrow> None
      | Fail e # evs \<Rightarrow> Some (Errno e, t\<lparr>sched := evs\<rparr>)
      | Xfer k # evs \<Rightarrow>
          Some (Ret (min k (length buf)),
                t\<lparr>outbox := outbox t @ take (min k (length buf)) buf, sched := evs\<rparr>))"

definition sys_recv :: "nat \<Rightarrow> transport \<Rightarrow> (byte list sysret \<times> transport) option" where
  "sys_recv len t =
     (case sched t of
        [] \<Rightarrow> None
      | Fail e # evs \<Rightarrow> Some (Errno e, t\<lparr>sched := evs\<rparr>)
      | Xfer k # evs \<Rightarrow>
          Some (Ret (take (min k len) (inbox t)),
                t\<lparr>inbox := drop (min k len) (inbox t), sched := evs\<rparr>))"

definition sys_close :: "int \<Rightarrow> transport \<Rightarrow> transport" where
  "sys_close d t = t\<lparr>released := released t @ [d]\<rparr>"

section \<open>Connection (rpc\_connection.cpp)\<close>

record connection =
  fd :: int
  "open" :: bool

definition Connection :: "int \<Rightarrow> connection" where
  "Connection socket_fd = \<lparr>fd = socket_fd, open = (socket_fd \<ge> 0)\<rparr>"

definition is_open :: "connection \<Rightarrow> bool" where
  "is_open c = open c"

text \<open>
  \<^verbatim>\<open>send_data\<close>: the while loop is \<open>send_loop\<close>, with \<open>total_sent\<close> as its variable.
  \<open>strerror\<close> is the C library's table of messages, taken as a parameter.
\<close>

function send_loop ::
  "(int \<Rightarrow> string) \<Rightarrow> byte list \<Rightarrow> nat \<Rightarrow> connection \<Rightarrow> transport
     \<Rightarrow> ((exn + unit) \<times> connection \<times> transport) option" where
  "send_loop strerror data total_sent c t =
     (if total_sent < length data then
        (case sys_send (drop total_sent data) t of
           None \<Rightarrow> None
         | Some (Errno e, t') \<Rightarrow>
             if e = EINTR then send_loop strerror data total_sent c t'
             else Some (Inl (ConnectionError (''Send error: '' @ strerror e)),
                        c\<lparr>open := False\<rparr>, t')
         | Some (Ret sent, t') \<Rightarrow> send_loop strerror data (total_sent + sent) c t')
      else Some (Inr (), c, t))"
  by pat_completeness auto
termination
proof (relation "measure (\<lambda>(strerror, data, total_sent, c, t). length (sched t))")
  show "wf (measure (\<lambda>(strerror, data, total_sent, c, t). length (sched t)))"
    by simp
qed (auto simp: sys_send_def split: list.splits sys_event.splits)

declare send_loop.simps [simp del]

definition send_data ::
  "(int \<Rightarrow> string) \<Rightarrow> byte list \<Rightarrow> connection \<Rightarrow> transport
     \<Rightarrow> ((exn + unit) \<times> connection \<times> transport) option" where
  "send_data strerror data c t =
     (if \<not> open c then Some (Inl (ConnectionError ''Connection is closed''), c, t)
      else send_loop strerror data 0 c t)"

text \<open>
  \<^verbatim>\<open>receive_data\<close>: \<open>buffer\<close> is the vector of \<open>num_bytes\<close> zero bytes the code allocates;
  \<^verbatim>\<open>recv\<close> writes what it got at \<open>buffer.data() + total_received\<close>, which is
  \<open>store_at\<close>. The constructor of the vector throws \<^verbatim>\<open>std::length_error\<close>, before any
  read, when \<open>num_bytes\<close> is beyond the vector's \<^verbatim>\<open>max_size()\<close>; \<open>max_size\<close> is that bound
  for a vector of bytes on a 64-bit target (\<^verbatim>\<open>PTRDIFF_MAX\<close>). The loop is modelled from the
  point where the buffer exists.
\<close>

definition max_size :: nat where
  "max_size = 2 ^ 63 - 1"

definition store_at :: "byte list \<Rightarrow> nat \<Rightarrow> byte list \<Rightarrow> byte list" where
  "store_at buffer off chunk = take off buffer @ chunk @ drop (off + length chunk) buffer"

function recv_loop ::
  "(int \<Rightarrow> string) \<Rightarrow> nat \<Rightarrow> byte list \<Rightarrow> nat \<Rightarrow> connection \<Rightarrow> transport
     \<Rightarrow> ((exn + byte list) \<times> connection \<times> transport) option" where
  "recv_loop strerror num_bytes buffer total_received c t =
     (if total_received < num_bytes then
        (case sys_recv (num_bytes - total_received) t of
           None \<Rightarrow> None
         | Some (Ret chunk, t') \<Rightarrow>
             if length chunk = 0
             then Some (Inl (ConnectionError ''Connection closed by peer''),
                        c\<lparr>open := False\<rparr>, t')
             else recv_loop strerror num_bytes (store_at buffer total_received chunk)
                    (total_received + length chunk) c t'
         | Some (Errno e, t') \<Rightarrow>
             if e = EINTR then recv_loop strerror num_bytes buffer total_received c t'
             else Some (Inl (ConnectionError (''Receive error: '' @ strerror e)),
                        c\<lparr>open := False\<rparr>, t'))
      else Some (Inr buffer, c, t))"
  by pat_completeness auto
termination
proof (relation "measure (\<lambda>(strerror, num_bytes, buffer, total_received, c, t). length (sched t))")
  show "wf (measure (\<lambda>(strerror, num_bytes, buffer, total_received, c, t). length (sched t)))"
    by simp
qed (auto simp: sys_recv_def split: list.splits sys_event.splits)

declare recv_loop.simps [simp del]

definition receive_data ::
  "(int \<Rightarrow> string) \<Rightarrow> nat \<Rightarrow> connection \<Rightarrow> transport
     \<Rightarrow> ((exn + byte list) \<times> connection \<times> transport) option" where
  "receive_data strerror num_bytes c t =
     (if \<not> open c then Some (Inl (ConnectionError ''Connection is closed''), c, t)
      else recv_loop strerror num_bytes (replicate num_bytes 0) 0 c t)"

text \<open>
  \<^verbatim>\<open>receive_length_prefix\<close>: \<^verbatim>\<open>memcpy\<close> reads the four received bytes as the host's
  \<^verbatim>\<open>uint32_t\<close>, so its value depends on the host's byte order; \<^verbatim>\<open>ntohl\<close> swaps the
  bytes on a little-endian host and is the identity on a big-endian one. The host's byte
  order is a parameter. \<^verbatim>\<open>receive_data(4)\<close> returns a vector of four bytes, so the last
  equation of \<open>memcpy_u32\<close> is never reached from \<open>receive_length_prefix\<close>.
\<close>

datatype endian = LittleEndian | BigEndian

fun memcpy_u32 :: "endian \<Rightarrow> byte list \<Rightarrow> 32 word" where
  "memcpy_u32 LittleEndian [b0, b1, b2, b3] =
     ucast b0 OR push_bit 8 (ucast b1) OR push_bit 16 (ucast b2) OR push_bit 24 (ucast b3)"
| "memcpy_u32 BigEndian [b0, b1, b2, b3] =
     push_bit 24 (ucast b0) OR push_bit 16 (ucast b1) OR push_bit 8 (ucast b2) OR ucast b3"
| "memcpy_u32 _ _ = 0"

definition bswap32 :: "32 word \<Rightarrow> 32 word" where
  "bswap32 w =
     push_bit 24 w OR push_bit 8 (w AND 0xFF00) OR (drop_bit 8 w AND 0xFF00) OR drop_bit 24 w"

definition ntohl :: "endian \<Rightarrow> 32 word \<Rightarrow> 32 word" where
  "ntohl host w = (case host of LittleEndian \<Rightarrow> bswap32 w | BigEndian \<Rightarrow> w)"

definition receive_length_prefix ::
  "endian \<Rightarrow> (int \<Rightarrow> string) \<Rightarrow> connection \<Rightarrow> transport
     \<Rightarrow> ((exn + 32 word) \<times> connection \<times> transport) option" where
  "receive_length_prefix host strerror c t =
     (case receive_data strerror 4 c t of
        None \<Rightarrow> None
      | Some (Inl e, c', t') \<Rightarrow> Some (Inl e, c', t')
      | Some (Inr data, c', t') \<Rightarrow> Some (Inr (ntohl host (memcpy_u32 host data)), c', t'))"

text \<open>
  \<^verbatim>\<open>close_connection\<close> and the destructor. A failing \<^verbatim>\<open>close\<close> is only logged, so the
  model records the descriptor handed to \<^verbatim>\<open>close\<close> and nothing else.
\<close>

definition close_connection :: "connection \<Rightarrow> transport \<Rightarrow> connection \<times> transport" where
  "close_connection c t =
     (if \<not> open c then (c, t)
      else (c\<lparr>open := False, fd := -1\<rparr>, sys_close (fd c) t))"

definition destructor :: "connection \<Rightarrow> transport \<Rightarrow> connection \<times> transport" where
  "destructor c t = (if open c then close_connection c t else (c, t))"

text \<open>
  The move constructor and the move assignment (rpc\_connection.cpp, lines 33 to 55). The
  new or assigned object takes the descriptor and the flag of \<open>other\<close>, and \<open>other\<close> is reset
  to a closed object without a descriptor. The assignment first closes the connection the
  object holds, if it is open: \<open>t\<close> is the socket of that connection, and the result
  gives the object, that socket and \<open>other\<close> after the assignment. The two arguments are
  two objects; an assignment of an object to itself does nothing.
\<close>

definition move_construct :: "connection \<Rightarrow> connection \<times> connection" where
  "move_construct other = (\<lparr>fd = fd other, open = open other\<rparr>, other\<lparr>fd := -1, open := False\<rparr>)"

definition move_assign ::
  "connection \<Rightarrow> transport \<Rightarrow> connection \<Rightarrow> connection \<times> transport \<times> connection" where
  "move_assign c t other =
     (case (if open c then close_connection c t else (c, t)) of
        (c', t') \<Rightarrow>
          (c'\<lparr>fd := fd other, open := open other\<rparr>, t', other\<lparr>fd := -1, open := False\<rparr>))"

text \<open>
  The calls on the connection an object holds (sending, receiving, closing, asking, and
  the destructor), and a run of them. An operation that never returns
  (the script of the transport is used up) ends the run with \<open>None\<close>; a thrown
  \<^verbatim>\<open>ConnectionError\<close> is a result like any other, and the caller may go on using the
  object. \<open>outcome\<close> is what one call gave back.
\<close>

datatype conn_op =
    SendData "byte list"
  | ReceiveData nat
  | ReceiveLengthPrefix
  | CloseConnection
  | IsOpen
  | Destroy

datatype outcome =
    Threw exn
  | Done
  | Bytes "byte list"
  | Length "32 word"
  | Flag bool

fun conn_step ::
  "endian \<Rightarrow> (int \<Rightarrow> string) \<Rightarrow> conn_op \<Rightarrow> connection \<Rightarrow> transport
     \<Rightarrow> (outcome \<times> connection \<times> transport) option" where
  "conn_step host strerror (SendData data) c t =
     (case send_data strerror data c t of
        None \<Rightarrow> None
      | Some (Inl e, c', t') \<Rightarrow> Some (Threw e, c', t')
      | Some (Inr u, c', t') \<Rightarrow> Some (Done, c', t'))"
| "conn_step host strerror (ReceiveData n) c t =
     (case receive_data strerror n c t of
        None \<Rightarrow> None
      | Some (Inl e, c', t') \<Rightarrow> Some (Threw e, c', t')
      | Some (Inr bs, c', t') \<Rightarrow> Some (Bytes bs, c', t'))"
| "conn_step host strerror ReceiveLengthPrefix c t =
     (case receive_length_prefix host strerror c t of
        None \<Rightarrow> None
      | Some (Inl e, c', t') \<Rightarrow> Some (Threw e, c', t')
      | Some (Inr n, c', t') \<Rightarrow> Some (Length n, c', t'))"
| "conn_step host strerror CloseConnection c t =
     (case close_connection c t of (c', t') \<Rightarrow> Some (Done, c', t'))"
| "conn_step host strerror IsOpen c t = Some (Flag (is_open c), c, t)"
| "conn_step host strerror Destroy c t =
     (case destructor c t of (c', t') \<Rightarrow> Some (Done, c', t'))"

fun conn_run ::
  "endian \<Rightarrow> (int \<Rightarrow> string) \<Rightarrow> conn_op list \<Rightarrow> connection \<Rightarrow> transport
     \<Rightarrow> (outcome list \<times> connection \<times> transport) option" where
  "conn_run host strerror [] c t = Some ([], c, t)"
| "conn_run host strerror (x # xs) c t =
     (case conn_step host strerror x c t of
        None \<Rightarrow> None
      | Some (r, c', t') \<Rightarrow>
          (case conn_run host strerror xs c' t' of
             None \<Rightarrow> None
           | Some (rs, c'', t'') \<Rightarrow> Some (r # rs, c'', t'')))"

text \<open>What each operation gives on a connection that is not open.\<close>

fun closed_outcome :: "conn_op \<Rightarrow> outcome" where
  "closed_outcome (SendData data) = Threw (ConnectionError ''Connection is closed'')"
| "closed_outcome (ReceiveData n) = Threw (ConnectionError ''Connection is closed'')"
| "closed_outcome ReceiveLengthPrefix = Threw (ConnectionError ''Connection is closed'')"
| "closed_outcome CloseConnection = Done"
| "closed_outcome IsOpen = Flag False"
| "closed_outcome Destroy = Done"

section \<open>Json::Value (jsoncpp)\<close>

text \<open>
  jsoncpp is an external library. Its value type is the datatype \<open>json\<close>, an object
  being the list of its members. The three operations \<^verbatim>\<open>process_json_request\<close> uses
  on a parsed value follow the library: \<^verbatim>\<open>isMember\<close> and the non-const \<^verbatim>\<open>operator[]\<close>
  require a null or an object value and throw \<^verbatim>\<open>Json::LogicError\<close> on any other,
  \<^verbatim>\<open>asString\<close> throws it on an array and on an object. The parser, the writer and the
  printing of numbers are taken as parameters (\<open>jsoncpp\<close>); \<open>parseFromStream\<close> gives
  \<open>Inl errors\<close> where the library returns false and fills \<^verbatim>\<open>errors\<close>. \<open>JInt\<close> stands
  for the signed and the unsigned integer values, and \<open>JReal m e\<close> for the double
  \<open>m * 2 ^ e\<close>; no operation of the server looks into a number.
\<close>

datatype json =
    JNull
  | JInt int
  | JReal int int
  | JString string
  | JBool bool
  | JArray "json list"
  | JObject "(string \<times> json) list"

record jsoncpp =
  parseFromStream :: "string \<Rightarrow> string + json"
  writeString :: "json \<Rightarrow> string"
  valueToString :: "json \<Rightarrow> string"

definition isMember :: "json \<Rightarrow> string \<Rightarrow> exn + bool" where
  "isMember v key =
     (case v of
        JNull \<Rightarrow> Inr False
      | JObject members \<Rightarrow> Inr (case map_of members key of None \<Rightarrow> False | Some x \<Rightarrow> True)
      | _ \<Rightarrow> Inl (JsonLogicError
                 ''in Json::Value::find(begin, end): requires objectValue or nullValue''))"

definition subscript :: "json \<Rightarrow> string \<Rightarrow> exn + json" where
  "subscript v key =
     (case v of
        JNull \<Rightarrow> Inr JNull
      | JObject members \<Rightarrow> Inr (case map_of members key of None \<Rightarrow> JNull | Some x \<Rightarrow> x)
      | _ \<Rightarrow> Inl (JsonLogicError
                 ''in Json::Value::resolveReference(key, end): requires objectValue''))"

definition asString :: "jsoncpp \<Rightarrow> json \<Rightarrow> exn + string" where
  "asString J v =
     (case v of
        JNull \<Rightarrow> Inr []
      | JString str \<Rightarrow> Inr str
      | JBool b \<Rightarrow> Inr (if b then ''true'' else ''false'')
      | JInt i \<Rightarrow> Inr (valueToString J v)
      | JReal m e \<Rightarrow> Inr (valueToString J v)
      | _ \<Rightarrow> Inl (JsonLogicError ''Type is not convertible to string''))"

section \<open>The response envelope\<close>

text \<open>
  The two objects \<^verbatim>\<open>process_json_request\<close> builds member by member
  (\<^verbatim>\<open>error["status"] = "error"; error["message"] = ...\<close>).
\<close>

definition error_response :: "string \<Rightarrow> json" where
  "error_response message = JObject [(''status'', JString ''error''), (''message'', JString message)]"

definition success_response :: "json \<Rightarrow> json" where
  "success_response result = JObject [(''status'', JString ''success''), (''result'', result)]"

definition be32_bytes :: "32 word \<Rightarrow> byte list" where
  "be32_bytes n = [ucast (drop_bit 24 n), ucast (drop_bit 16 n), ucast (drop_bit 8 n), ucast n]"

definition bytes_of_string :: "string \<Rightarrow> byte list" where
  "bytes_of_string str = map of_char str"

text \<open>
  Modelled from the spec: \<^verbatim>\<open>serialize_response\<close> is called by \<^verbatim>\<open>process_json_request\<close>
  and is not in the sources. The specification's wire format is
  \<^verbatim>\<open>[4-byte big-endian unsigned length][UTF-8 JSON payload of that exact byte length]\<close>;
  \<open>frame\<close> is that format for a payload, \<open>serialize_response\<close> the frame of the JSON text
  of a response. The length field is 32 bits wide, as the specification says.
\<close>

definition frame :: "byte list \<Rightarrow> byte list" where
  "frame payload = be32_bytes (of_nat (length payload)) @ payload"

definition serialize_response :: "jsoncpp \<Rightarrow> json \<Rightarrow> byte list" where
  "serialize_response J response = frame (bytes_of_string (writeString J response))"

section \<open>RPCServer (rpc\_server\_stub.cpp)\<close>

text \<open>
  A registered function takes the arguments and returns a value or throws. The registry is
  the \<^verbatim>\<open>std::map\<close> of the class; \<open>count\<close> and \<open>at_or_insert\<close> are its \<^verbatim>\<open>count\<close> and its
  \<^verbatim>\<open>operator[]\<close>, which inserts a default-constructed (empty) \<^verbatim>\<open>std::function\<close> under a
  key that is absent. Calling an empty \<^verbatim>\<open>std::function\<close> throws
  \<^verbatim>\<open>std::bad_function_call\<close>.
\<close>

type_synonym RPCFunction = "json \<Rightarrow> exn + json"

record rpc_server =
  port :: int
  listen_fd :: int
  function_registry :: "string \<rightharpoonup> RPCFunction"
  running :: bool

datatype log_line = Cout string | Cerr string

definition count :: "(string \<rightharpoonup> RPCFunction) \<Rightarrow> string \<Rightarrow> nat" where
  "count registry name = (case registry name of None \<Rightarrow> 0 | Some f \<Rightarrow> 1)"

definition empty_function :: RPCFunction where
  "empty_function = (\<lambda>args. Inl (OtherStdException ''bad_function_call''))"

definition at_or_insert ::
  "(string \<rightharpoonup> RPCFunction) \<Rightarrow> string \<Rightarrow> RPCFunction \<times> (string \<rightharpoonup> RPCFunction)" where
  "at_or_insert registry name =
     (case registry name of
        Some f \<Rightarrow> (f, registry)
      | None \<Rightarrow> (empty_function, registry(name \<mapsto> empty_function)))"

definition RPCServer :: "int \<Rightarrow> exn + rpc_server" where
  "RPCServer p =
     (if p \<le> 0 \<or> p > 65535 then Inl (InvalidArgument ''Invalid port number'')
      else Inr \<lparr>port = p, listen_fd = -1, function_registry = Map.empty, running = False\<rparr>)"

text \<open>
  \<^verbatim>\<open>register_function\<close>. A throw leaves the server as it was, so the result is either
  the exception or the server after the call with the lines printed.
\<close>

definition register_function ::
  "string \<Rightarrow> RPCFunction \<Rightarrow> rpc_server \<Rightarrow> exn + rpc_server \<times> log_line list" where
  "register_function name func s =
     (if running s
      then Inl (RuntimeError ''Cannot register functions while server is running'')
      else if count (function_registry s) name \<noteq> 0
      then Inr (s, [Cerr (''Warning: Function '' @ [CHR 0x27] @ name @ [CHR 0x27]
                           @ '' already registered'')])
      else Inr (s\<lparr>function_registry := (function_registry s)(name \<mapsto> func)\<rparr>,
                [Cout (''Registered function: '' @ name)]))"

text \<open>
  \<^verbatim>\<open>start\<close> up to the accept loop: the step that takes the server into the listening
  state. \<open>setup\<close> is what \<^verbatim>\<open>setup_listening_socket()\<close> gives, a descriptor or the
  exception it throws. The accept loop that follows blocks the calling thread until
  \<^verbatim>\<open>stop\<close> is called from elsewhere; it starts the workers and writes neither the registry
  nor the running flag. \<^verbatim>\<open>stop\<close> is the second transition. The lines the two print,
  and the shutdown and close of the listening socket, are left out.
\<close>

definition start :: "exn + int \<Rightarrow> rpc_server \<Rightarrow> exn + rpc_server" where
  "start setup s =
     (if running s then Inr s
      else case setup of
             Inl e \<Rightarrow> Inl e
           | Inr sockfd \<Rightarrow> Inr (s\<lparr>listen_fd := sockfd, running := True\<rparr>))"

definition stop :: "rpc_server \<Rightarrow> rpc_server" where
  "stop s = (if \<not> running s then s else s\<lparr>running := False\<rparr>)"

text \<open>
  \<^verbatim>\<open>process_json_request\<close>, in the order of the code. \<open>missing_fields\<close> is the condition
  \<^verbatim>\<open>!root.isMember("function") || !root.isMember("args")\<close> with its short circuit;
  \<open>try_block\<close> is the body of the \<^verbatim>\<open>try\<close> (lines 215 to 223) and \<open>catch_clauses\<close> the
  two handlers after it, the one for \<^verbatim>\<open>FunctionNotFoundError\<close> first. The membership
  test, \<^verbatim>\<open>asString\<close> and the two subscripts stand before the \<^verbatim>\<open>try\<close>: what they throw
  leaves \<^verbatim>\<open>process_json_request\<close>. The result is the returned buffer or the exception
  that leaves the function, with the server after the call.
\<close>

definition missing_fields :: "json \<Rightarrow> exn + bool" where
  "missing_fields root =
     (case isMember root ''function'' of
        Inl e \<Rightarrow> Inl e
      | Inr False \<Rightarrow> Inr True
      | Inr True \<Rightarrow>
          (case isMember root ''args'' of
             Inl e \<Rightarrow> Inl e
           | Inr has_args \<Rightarrow> Inr (\<not> has_args)))"

definition try_block ::
  "jsoncpp \<Rightarrow> string \<Rightarrow> json \<Rightarrow> rpc_server \<Rightarrow> (exn + byte list) \<times> rpc_server" where
  "try_block J func_name args s =
     (if count (function_registry s) func_name = 0
      then (Inl (FunctionNotFoundError ''Function not found''), s)
      else case at_or_insert (function_registry s) func_name of
             (func, registry') \<Rightarrow>
               (case func args of
                  Inl e \<Rightarrow> (Inl e, s\<lparr>function_registry := registry'\<rparr>)
                | Inr result \<Rightarrow>
                    (Inr (serialize_response J (success_response result)),
                     s\<lparr>function_registry := registry'\<rparr>)))"

definition catch_clauses ::
  "jsoncpp \<Rightarrow> (exn + byte list) \<times> rpc_server \<Rightarrow> (exn + byte list) \<times> rpc_server" where
  "catch_clauses J r =
     (case r of
        (Inr response, s) \<Rightarrow> (Inr response, s)
      | (Inl (FunctionNotFoundError m), s) \<Rightarrow> (Inr (serialize_response J (error_response m)), s)
      | (Inl e, s) \<Rightarrow>
          if is_std_exception e
          then (Inr (serialize_response J (error_response (''Execution error: '' @ what e))), s)
          else (Inl e, s))"

definition process_json_request ::
  "jsoncpp \<Rightarrow> string \<Rightarrow> rpc_server \<Rightarrow> (exn + byte list) \<times> rpc_server" where
  "process_json_request J request_json_str s =
     (case parseFromStream J request_json_str of
        Inl errors \<Rightarrow>
          (Inr (serialize_response J (error_response (''Invalid JSON: '' @ errors))), s)
      | Inr root \<Rightarrow>
          (case missing_fields root of
             Inl e \<Rightarrow> (Inl e, s)
           | Inr True \<Rightarrow>
               (Inr (serialize_response J
                       (error_response ''Missing 'function' or 'args' field'')), s)
           | Inr False \<Rightarrow>
               (case subscript root ''function'' of
                  Inl e \<Rightarrow> (Inl e, s)
                | Inr function_value \<Rightarrow>
                    (case asString J function_value of
                       Inl e \<Rightarrow> (Inl e, s)
                     | Inr func_name \<Rightarrow>
                         (case subscript root ''args'' of
                            Inl e \<Rightarrow> (Inl e, s)
                          | Inr args \<Rightarrow> catch_clauses J (try_block J func_name args s))))))"

text \<open>
  A request calls \<open>name\<close> with \<open>args\<close> when its text parses to an object with both
  members, the \<^verbatim>\<open>"function"\<close> member converts to the string \<open>name\<close>, and the \<^verbatim>\<open>"args"\<close>
  member is \<open>args\<close>.
\<close>

definition calls :: "jsoncpp \<Rightarrow> string \<Rightarrow> string \<Rightarrow> json \<Rightarrow> bool" where
  "calls J request_json_str name args =
     (case parseFromStream J request_json_str of
        Inr (JObject members) \<Rightarrow>
          (case (map_of members ''function'', map_of members ''args'') of
             (Some function_value, Some a) \<Rightarrow> asString J function_value = Inr name \<and> a = args
           | _ \<Rightarrow> False)
      | _ \<Rightarrow> False)"

text \<open>
  The calls a program can make on a server, one after the other, and the server they
  leave. A call that throws leaves the server as it was.
\<close>

datatype server_op =
    Register string RPCFunction
  | Start "exn + int"
  | Stop
  | Request string

fun server_step :: "jsoncpp \<Rightarrow> rpc_server \<Rightarrow> server_op \<Rightarrow> rpc_server" where
  "server_step J s (Register name func) =
     (case register_function name func s of Inl e \<Rightarrow> s | Inr (s', out) \<Rightarrow> s')"
| "server_step J s (Start setup) = (case start setup s of Inl e \<Rightarrow> s | Inr s' \<Rightarrow> s')"
| "server_step J s Stop = stop s"
| "server_step J s (Request request_json_str) = snd (process_json_request J request_json_str s)"

definition server_run :: "jsoncpp \<Rightarrow> rpc_server \<Rightarrow> server_op list \<Rightarrow> rpc_server" where
  "server_run J s ops = foldl (server_step J) s ops"

text \<open>
  The two reads at the head of the worker loop (\<^verbatim>\<open>handle_client\<close>, lines 164 and 165):
  the length prefix, then that many bytes.
\<close>

definition read_message ::
  "endian \<Rightarrow> (int \<Rightarrow> string) \<Rightarrow> connection \<Rightarrow> transport
     \<Rightarrow> ((exn + byte list) \<times> connection \<times> transport) option" where
  "read_message host strerror c t =
     (case receive_length_prefix host strerror c t of
        None \<Rightarrow> None
      | Some (Inl e, c', t') \<Rightarrow> Some (Inl e, c', t')
      | Some (Inr len, c', t') \<Rightarrow> receive_data strerror (unat len) c' t')"

text \<open>
  Scripts of the transport: an event is transient when it is an interruption
  (\<^verbatim>\<open>EINTR\<close>), it makes progress when it moves at least one byte. A script of partial
  transfers has only such events; \<open>moves\<close> counts those that move bytes.
\<close>

fun transient :: "sys_event \<Rightarrow> bool" where
  "transient (Fail e) = (e = EINTR)"
| "transient (Xfer k) = False"

fun progress :: "sys_event \<Rightarrow> bool" where
  "progress (Xfer k) = (0 < k)"
| "progress (Fail e) = False"

definition partial_io :: "sys_event list \<Rightarrow> bool" where
  "partial_io evs = list_all (\<lambda>ev. progress ev \<or> transient ev) evs"

definition moves :: "sys_event list \<Rightarrow> nat" where
  "moves evs = length (filter progress evs)"

section \<open>Sample inputs\<close>

text \<open>
  Concrete inputs at which the theorems below are instantiated. \<open>byte_at_a_time\<close> is a
  socket that moves one byte per call, with two interruptions in between.
\<close>

definition byte_at_a_time :: transport where
  "byte_at_a_time =
     \<lparr>inbox = [0, 0, 1, 2, 7, 9], outbox = [],
      sched = [Xfer 1, Fail 4, Xfer 1, Xfer 1, Fail 4, Xfer 1, Xfer 1], released = []\<rparr>"

text \<open>
  \<open>strerror_sample\<close> is a \<^verbatim>\<open>strerror\<close> with three of the messages of Linux, \<open>quiet\<close> a
  socket on which nothing is scripted, and \<open>peer_gone\<close> one whose peer sent two bytes and
  closed.
\<close>

definition strerror_sample :: "int \<Rightarrow> string" where
  "strerror_sample e =
     (if e = 4 then ''Interrupted system call''
      else if e = 32 then ''Broken pipe''
      else if e = 104 then ''Connection reset by peer''
      else ''Unknown error'')"

definition quiet :: transport where
  "quiet = \<lparr>inbox = [], outbox = [], sched = [], released = []\<rparr>"

definition peer_gone :: transport where
  "peer_gone = \<lparr>inbox = [0, 0], outbox = [], sched = [Xfer 1, Xfer 4, Xfer 4], released = []\<rparr>"

text \<open>\<open>reset_by_peer\<close>: a socket whose next read fails with \<^verbatim>\<open>ECONNRESET\<close> (104).\<close>

definition reset_by_peer :: transport where
  "reset_by_peer = \<lparr>inbox = [0, 0], outbox = [], sched = [Fail 104], released = []\<rparr>"

text \<open>\<open>one_frame\<close>: the frame of the two bytes 7 and 9, then one byte of the next message.\<close>

definition one_frame :: transport where
  "one_frame =
     \<lparr>inbox = [0, 0, 0, 2, 7, 9, 5], outbox = [],
      sched = [Xfer 1, Xfer 1, Fail 4, Xfer 1, Xfer 1, Xfer 1, Xfer 1], released = []\<rparr>"

text \<open>
  A stand-in for jsoncpp at the sample requests: a parser that knows the first seven of the
  requests below and rejects every other text, and a compact writer. \<open>echo\<close> is the handler main.cpp registers
  under that name; \<open>relay\<close> is a handler that throws \<^verbatim>\<open>FunctionNotFoundError\<close> itself, and
  \<open>crash\<close> one that throws an \<^verbatim>\<open>int\<close>.
\<close>

function decimal :: "nat \<Rightarrow> string" where
  "decimal n =
     (if n < 10 then [''0123456789'' ! n] else decimal (n div 10) @ [''0123456789'' ! (n mod 10)])"
  by pat_completeness auto
termination
  by (relation "measure id") auto

declare decimal.simps [simp del]

definition write_int :: "int \<Rightarrow> string" where
  "write_int i = (if i < 0 then ''-'' @ decimal (nat (- i)) else decimal (nat i))"

definition quoted :: "string \<Rightarrow> string" where
  "quoted str = CHR 0x22 # str @ [CHR 0x22]"

fun sample_writer :: "json \<Rightarrow> string"
  and write_elements :: "json list \<Rightarrow> string"
  and write_members :: "(string \<times> json) list \<Rightarrow> string" where
  "sample_writer JNull = ''null''"
| "sample_writer (JInt i) = write_int i"
| "sample_writer (JReal m e) = write_int m @ ''p'' @ write_int e"
| "sample_writer (JString str) = quoted str"
| "sample_writer (JBool b) = (if b then ''true'' else ''false'')"
| "sample_writer (JArray xs) = ''['' @ write_elements xs @ '']''"
| "sample_writer (JObject ms) = ''{'' @ write_members ms @ ''}''"
| "write_elements [] = []"
| "write_elements [x] = sample_writer x"
| "write_elements (x # y # ys) = sample_writer x @ '','' @ write_elements (y # ys)"
| "write_members [] = []"
| "write_members [(k, v)] = quoted k @ '':'' @ sample_writer v"
| "write_members ((k, v) # m # ms) =
     quoted k @ '':'' @ sample_writer v @ '','' @ write_members (m # ms)"

definition echo_request :: string where
  \<open>echo_request = ''{"function":"echo","args":[7]}''\<close>

definition echo_no_args_request :: string where
  \<open>echo_no_args_request = ''{"function":"echo","args":[]}''\<close>

definition missing_request :: string where
  \<open>missing_request = ''{"function":"missing","args":[]}''\<close>

definition relay_request :: string where
  \<open>relay_request = ''{"function":"relay","args":[]}''\<close>

definition no_function_request :: string where
  \<open>no_function_request = ''{"args":[]}''\<close>

definition array_request :: string where
  \<open>array_request = ''[1,2]''\<close>

definition array_name_request :: string where
  \<open>array_name_request = ''{"function":[],"args":[]}''\<close>

definition malformed_request :: string where
  \<open>malformed_request = ''{"function":''\<close>

definition sample_parser :: "string \<Rightarrow> string + json" where
  "sample_parser text =
     (if text = echo_request
      then Inr (JObject [(''function'', JString ''echo''), (''args'', JArray [JInt 7])])
      else if text = echo_no_args_request
      then Inr (JObject [(''function'', JString ''echo''), (''args'', JArray [])])
      else if text = missing_request
      then Inr (JObject [(''function'', JString ''missing''), (''args'', JArray [])])
      else if text = relay_request
      then Inr (JObject [(''function'', JString ''relay''), (''args'', JArray [])])
      else if text = no_function_request
      then Inr (JObject [(''args'', JArray [])])
      else if text = array_request
      then Inr (JArray [JInt 1, JInt 2])
      else if text = array_name_request
      then Inr (JObject [(''function'', JArray []), (''args'', JArray [])])
      else Inl ''* Line 1, Column 1 Syntax error: value, object or array expected.'')"

definition sample_json :: jsoncpp where
  "sample_json =
     \<lparr>parseFromStream = sample_parser, writeString = sample_writer,
      valueToString = sample_writer\<rparr>"

definition echo :: RPCFunction where
  "echo args =
     (case args of
        JArray [x] \<Rightarrow> Inr x
      | _ \<Rightarrow> Inl (InvalidArgument ''echo requires exactly one argument''))"

definition relay :: RPCFunction where
  "relay args = Inl (FunctionNotFoundError ''no such backend'')"

definition crash :: RPCFunction where
  "crash args = Inl NonStdThrow"

text \<open>
  Servers: one just constructed, one with \<open>echo\<close> and \<open>relay\<close> registered, that one
  after \<open>start\<close>, and a listening one whose \<open>echo\<close> is \<open>crash\<close>.
\<close>

definition created :: rpc_server where
  "created = \<lparr>port = 8080, listen_fd = -1, function_registry = Map.empty, running = False\<rparr>"

definition registered :: rpc_server where
  "registered = created\<lparr>function_registry := [''echo'' \<mapsto> echo, ''relay'' \<mapsto> relay]\<rparr>"

definition listening :: rpc_server where
  "listening = registered\<lparr>listen_fd := 3, running := True\<rparr>"

definition crashing :: rpc_server where
  "crashing = listening\<lparr>function_registry := [''echo'' \<mapsto> crash]\<rparr>"

section \<open>Partial transfers: the loops of send\_data and receive\_data\<close>

lemma partial_io_Cons: "partial_io (ev # evs) = ((progress ev \<or> transient ev) \<and> partial_io evs)"
  by (simp add: partial_io_def)

lemma moves_Cons: "moves (ev # evs) = (if progress ev then Suc (moves evs) else moves evs)"
  by (simp add: moves_def)

lemma send_loop_returns:
  "sched t = evs \<Longrightarrow> partial_io evs \<Longrightarrow> tot \<le> length data \<Longrightarrow> length data - tot \<le> moves evs
   \<Longrightarrow> \<exists>evs'. send_loop se data tot c t
         = Some (Inr (), c, t\<lparr>outbox := outbox t @ drop tot data, sched := evs'\<rparr>)"
proof (induction evs arbitrary: t tot)
  case Nil
  then have "tot = length data" by (simp add: moves_def)
  with Nil show ?case by (subst send_loop.simps) (auto intro: exI [of _ "[]"])
next
  case (Cons ev evs)
  show ?case
  proof (cases "tot < length data")
    case False
    with Cons.prems have "tot = length data" by simp
    with Cons.prems show ?thesis
      by (subst send_loop.simps) (auto intro: exI [of _ "ev # evs"])
  next
    case True
    show ?thesis
    proof (cases ev)
      case (Fail e)
      with Cons.prems have e: "e = EINTR" by (simp add: partial_io_Cons)
      let ?t' = "t\<lparr>sched := evs\<rparr>"
      have s: "sys_send (drop tot data) t = Some (Errno e, ?t')"
        using Cons.prems Fail by (simp add: sys_send_def)
      have "\<exists>evs'. send_loop se data tot c ?t'
         = Some (Inr (), c, ?t'\<lparr>outbox := outbox ?t' @ drop tot data, sched := evs'\<rparr>)"
        using Cons.prems Fail
        by (intro Cons.IH) (simp_all add: partial_io_Cons moves_Cons)
      then show ?thesis
        using True s e by (subst send_loop.simps) simp
    next
      case (Xfer k)
      with Cons.prems have k: "0 < k" by (simp add: partial_io_Cons)
      let ?n = "min k (length (drop tot data))"
      let ?t' = "t\<lparr>outbox := outbox t @ take ?n (drop tot data), sched := evs\<rparr>"
      have s: "sys_send (drop tot data) t = Some (Ret ?n, ?t')"
        using Cons.prems Xfer by (simp add: sys_send_def)
      have n: "0 < ?n" "tot + ?n \<le> length data" using True k by simp_all
      have "\<exists>evs'. send_loop se data (tot + ?n) c ?t'
         = Some (Inr (), c, ?t'\<lparr>outbox := outbox ?t' @ drop (tot + ?n) data, sched := evs'\<rparr>)"
        using Cons.prems Xfer k n
        by (intro Cons.IH) (simp_all add: partial_io_Cons moves_Cons)
      moreover have "take ?n (drop tot data) @ drop (tot + ?n) data = drop tot data"
        by (metis append_take_drop_id drop_drop add.commute)
      ultimately show ?thesis
        using True s by (subst send_loop.simps) simp
    qed
  qed
qed


lemma send_loop_sound:
  "sched t = evs \<Longrightarrow> partial_io evs \<Longrightarrow> tot \<le> length data
   \<Longrightarrow> send_loop se data tot c t = Some r
   \<Longrightarrow> \<exists>evs'. r = (Inr (), c, t\<lparr>outbox := outbox t @ drop tot data, sched := evs'\<rparr>)"
proof (induction evs arbitrary: t tot)
  case Nil
  then show ?case
    by (subst (asm) send_loop.simps) (auto simp: sys_send_def split: if_splits intro: exI [of _ "[]"])
next
  case (Cons ev evs)
  show ?case
  proof (cases "tot < length data")
    case False
    with Cons.prems have "tot = length data" by simp
    with Cons.prems(1,4) show ?thesis
      by (subst (asm) send_loop.simps) (auto intro: exI [of _ "ev # evs"])
  next
    case True
    show ?thesis
    proof (cases ev)
      case (Fail e)
      with Cons.prems have e: "e = EINTR" by (simp add: partial_io_Cons)
      let ?t' = "t\<lparr>sched := evs\<rparr>"
      have s: "sys_send (drop tot data) t = Some (Errno e, ?t')"
        using Cons.prems Fail by (simp add: sys_send_def)
      have "send_loop se data tot c ?t' = Some r"
        using Cons.prems(4) True s e by (subst (asm) send_loop.simps) simp
      then have "\<exists>evs'. r = (Inr (), c, ?t'\<lparr>outbox := outbox ?t' @ drop tot data, sched := evs'\<rparr>)"
        using Cons.prems
        by (intro Cons.IH) (simp_all add: partial_io_Cons)
      then show ?thesis by simp
    next
      case (Xfer k)
      let ?n = "min k (length (drop tot data))"
      let ?t' = "t\<lparr>outbox := outbox t @ take ?n (drop tot data), sched := evs\<rparr>"
      have s: "sys_send (drop tot data) t = Some (Ret ?n, ?t')"
        using Cons.prems Xfer by (simp add: sys_send_def)
      have n: "tot + ?n \<le> length data" using True by simp
      have "send_loop se data (tot + ?n) c ?t' = Some r"
        using Cons.prems(4) True s by (subst (asm) send_loop.simps) simp
      then have "\<exists>evs'. r = (Inr (), c, ?t'\<lparr>outbox := outbox ?t' @ drop (tot + ?n) data, sched := evs'\<rparr>)"
        using Cons.prems n
        by (intro Cons.IH) (simp_all add: partial_io_Cons)
      moreover have "take ?n (drop tot data) @ drop (tot + ?n) data = drop tot data"
        by (metis append_take_drop_id drop_drop add.commute)
      ultimately show ?thesis by simp
    qed
  qed
qed

lemma length_store_at:
  "off + length chunk \<le> length buffer \<Longrightarrow> length (store_at buffer off chunk) = length buffer"
  by (simp add: store_at_def)

lemma take_store_at:
  "off + length chunk \<le> length buffer
   \<Longrightarrow> take (off + length chunk) (store_at buffer off chunk) = take off buffer @ chunk"
  by (simp add: store_at_def)

lemma recv_loop_done:
  "\<not> tot < n \<Longrightarrow> recv_loop se n buffer tot c t = Some (Inr buffer, c, t)"
  by (subst recv_loop.simps) simp

lemma recv_loop_blocked:
  "tot < n \<Longrightarrow> sys_recv (n - tot) t = None \<Longrightarrow> recv_loop se n buffer tot c t = None"
  by (subst recv_loop.simps) simp

lemma recv_loop_chunk:
  "tot < n \<Longrightarrow> sys_recv (n - tot) t = Some (Ret chunk, t') \<Longrightarrow> chunk \<noteq> []
   \<Longrightarrow> recv_loop se n buffer tot c t
       = recv_loop se n (store_at buffer tot chunk) (tot + length chunk) c t'"
  by (subst recv_loop.simps) simp

lemma recv_loop_eof:
  "tot < n \<Longrightarrow> sys_recv (n - tot) t = Some (Ret [], t')
   \<Longrightarrow> recv_loop se n buffer tot c t
       = Some (Inl (ConnectionError ''Connection closed by peer''), c\<lparr>open := False\<rparr>, t')"
  by (subst recv_loop.simps) simp

lemma recv_loop_eintr:
  "tot < n \<Longrightarrow> sys_recv (n - tot) t = Some (Errno EINTR, t')
   \<Longrightarrow> recv_loop se n buffer tot c t = recv_loop se n buffer tot c t'"
  by (subst recv_loop.simps) simp

lemma recv_loop_errno:
  "tot < n \<Longrightarrow> sys_recv (n - tot) t = Some (Errno e, t') \<Longrightarrow> e \<noteq> EINTR
   \<Longrightarrow> recv_loop se n buffer tot c t
       = Some (Inl (ConnectionError (''Receive error: '' @ se e)), c\<lparr>open := False\<rparr>, t')"
  by (subst recv_loop.simps) simp

lemma recv_loop_sound:
  "sched t = evs \<Longrightarrow> partial_io evs \<Longrightarrow> length buffer = n \<Longrightarrow> tot \<le> n
   \<Longrightarrow> n - tot \<le> length (inbox t)
   \<Longrightarrow> recv_loop se n buffer tot c t = Some r
   \<Longrightarrow> \<exists>evs'. r = (Inr (take tot buffer @ take (n - tot) (inbox t)), c,
                     t\<lparr>inbox := drop (n - tot) (inbox t), sched := evs'\<rparr>)"
proof (induction evs arbitrary: t tot buffer)
  case Nil
  then show ?case
    by (subst (asm) recv_loop.simps) (auto simp: sys_recv_def split: if_splits intro: exI [of _ "[]"])
next
  case (Cons ev evs)
  show ?case
  proof (cases "tot < n")
    case False
    with Cons.prems have "tot = n" by simp
    with Cons.prems(1,3,6) show ?thesis
      by (subst (asm) recv_loop.simps) (auto intro: exI [of _ "ev # evs"])
  next
    case True
    show ?thesis
    proof (cases ev)
      case (Fail e)
      with Cons.prems have e: "e = EINTR" by (simp add: partial_io_Cons)
      let ?t' = "t\<lparr>sched := evs\<rparr>"
      have s: "sys_recv (n - tot) t = Some (Errno e, ?t')"
        using Cons.prems Fail by (simp add: sys_recv_def)
      have "recv_loop se n buffer tot c ?t' = Some r"
        using Cons.prems(6) recv_loop_eintr [OF True s [unfolded e]] by simp
      then have "\<exists>evs'. r = (Inr (take tot buffer @ take (n - tot) (inbox ?t')), c,
                     ?t'\<lparr>inbox := drop (n - tot) (inbox ?t'), sched := evs'\<rparr>)"
        using Cons.prems
        by (intro Cons.IH) (simp_all add: partial_io_Cons)
      then show ?thesis by simp
    next
      case (Xfer k)
      with Cons.prems have k: "0 < k" by (simp add: partial_io_Cons)
      let ?m = "min k (n - tot)"
      let ?chunk = "take ?m (inbox t)"
      let ?t' = "t\<lparr>inbox := drop ?m (inbox t), sched := evs\<rparr>"
      let ?b' = "store_at buffer tot ?chunk"
      have s: "sys_recv (n - tot) t = Some (Ret ?chunk, ?t')"
        using Cons.prems Xfer by (simp add: sys_recv_def)
      have len: "length ?chunk = ?m" using Cons.prems(5) by simp
      have m: "0 < ?m" "tot + ?m \<le> n" using True k by simp_all
      have fits: "tot + length ?chunk \<le> length buffer"
        using len m Cons.prems(3) by simp
      have ne: "?chunk \<noteq> []" using len m(1) by auto
      have r: "recv_loop se n ?b' (tot + ?m) c ?t' = Some r"
        using Cons.prems(6) recv_loop_chunk [OF True s ne] len by simp
      have lb: "length ?b' = n"
        using length_store_at [OF fits] Cons.prems(3) by simp
      have inb: "n - (tot + ?m) \<le> length (inbox ?t')"
        using Cons.prems(5) m by simp
      have sch: "sched ?t' = evs" by simp
      have pio: "partial_io evs" using Cons.prems(2) by (simp add: partial_io_Cons)
      have "\<exists>evs'. r = (Inr (take (tot + ?m) ?b' @ take (n - (tot + ?m)) (inbox ?t')), c,
                     ?t'\<lparr>inbox := drop (n - (tot + ?m)) (inbox ?t'), sched := evs'\<rparr>)"
        by (rule Cons.IH [OF sch pio lb m(2) inb r])
      moreover have "take (tot + ?m) ?b' = take tot buffer @ ?chunk"
        using take_store_at [OF fits] len by simp
      moreover have "?chunk @ take (n - (tot + ?m)) (drop ?m (inbox t)) = take (n - tot) (inbox t)"
      proof -
        have "n - tot = ?m + (n - (tot + ?m))" using m(2) by linarith
        then show ?thesis by (metis take_add)
      qed
      moreover have "drop (n - (tot + ?m)) (drop ?m (inbox t)) = drop (n - tot) (inbox t)"
      proof -
        have "n - (tot + ?m) + ?m = n - tot" using m(2) by linarith
        then show ?thesis by (simp only: drop_drop)
      qed
      ultimately show ?thesis by simp
    qed
  qed
qed


lemma recv_loop_live:
  "sched t = evs \<Longrightarrow> partial_io evs \<Longrightarrow> tot \<le> n \<Longrightarrow> n - tot \<le> length (inbox t)
   \<Longrightarrow> n - tot \<le> moves evs \<Longrightarrow> recv_loop se n buffer tot c t \<noteq> None"
proof (induction evs arbitrary: t tot buffer)
  case Nil
  then have "\<not> tot < n" by (simp add: moves_def)
  then show ?case by (simp add: recv_loop_done)
next
  case (Cons ev evs)
  show ?case
  proof (cases "tot < n")
    case False
    then show ?thesis by (simp add: recv_loop_done)
  next
    case True
    have pio: "partial_io evs" using Cons.prems(2) by (simp add: partial_io_Cons)
    show ?thesis
    proof (cases ev)
      case (Fail e)
      with Cons.prems have e: "e = EINTR" by (simp add: partial_io_Cons)
      let ?t' = "t\<lparr>sched := evs\<rparr>"
      have s: "sys_recv (n - tot) t = Some (Errno EINTR, ?t')"
        using Cons.prems Fail e by (simp add: sys_recv_def)
      have sch: "sched ?t' = evs" by simp
      have inb: "n - tot \<le> length (inbox ?t')" using Cons.prems(4) by simp
      have mv: "n - tot \<le> moves evs" using Cons.prems(5) Fail by (simp add: moves_Cons)
      show ?thesis
        using Cons.IH [OF sch pio Cons.prems(3) inb mv] recv_loop_eintr [OF True s] by simp
    next
      case (Xfer k)
      with Cons.prems have k: "0 < k" by (simp add: partial_io_Cons)
      let ?m = "min k (n - tot)"
      let ?chunk = "take ?m (inbox t)"
      let ?t' = "t\<lparr>inbox := drop ?m (inbox t), sched := evs\<rparr>"
      have s: "sys_recv (n - tot) t = Some (Ret ?chunk, ?t')"
        using Cons.prems Xfer by (simp add: sys_recv_def)
      have len: "length ?chunk = ?m" using Cons.prems(4) by simp
      have m: "0 < ?m" "tot + ?m \<le> n" using True k by simp_all
      have ne: "?chunk \<noteq> []" using len m(1) by auto
      have sch: "sched ?t' = evs" by simp
      have inb: "n - (tot + ?m) \<le> length (inbox ?t')" using Cons.prems(4) m by simp
      have mv: "n - (tot + ?m) \<le> moves evs"
        using Cons.prems(5) Xfer k m by (simp add: moves_Cons)
      show ?thesis
        using Cons.IH [OF sch pio m(2) inb mv] recv_loop_chunk [OF True s ne] len by simp
    qed
  qed
qed

lemma receive_data_sound:
  assumes "open c" "partial_io (sched t)" "n \<le> length (inbox t)"
    and "receive_data se n c t = Some r"
  shows "\<exists>evs. r = (Inr (take n (inbox t)), c, t\<lparr>inbox := drop n (inbox t), sched := evs\<rparr>)"
proof -
  have loop: "recv_loop se n (replicate n 0) 0 c t = Some r"
    using assms(1,4) by (simp add: receive_data_def)
  have "\<exists>evs. r = (Inr (take 0 (replicate n 0) @ take (n - 0) (inbox t)), c,
                    t\<lparr>inbox := drop (n - 0) (inbox t), sched := evs\<rparr>)"
    by (rule recv_loop_sound [OF refl assms(2) _ _ _ loop]) (use assms(3) in simp_all)
  then show ?thesis by simp
qed

lemma receive_data_returns:
  assumes "open c" "partial_io (sched t)" "n \<le> length (inbox t)" "n \<le> moves (sched t)"
  shows "\<exists>evs. receive_data se n c t
           = Some (Inr (take n (inbox t)), c, t\<lparr>inbox := drop n (inbox t), sched := evs\<rparr>)"
proof -
  have "recv_loop se n (replicate n 0) 0 c t \<noteq> None"
    by (rule recv_loop_live [OF refl assms(2)]) (use assms(3,4) in simp_all)
  then obtain r where r: "receive_data se n c t = Some r"
    using assms(1) by (auto simp: receive_data_def)
  from receive_data_sound [OF assms(1-3) r] r show ?thesis by auto
qed

lemma send_data_sound:
  assumes "open c" "partial_io (sched t)" "send_data se data c t = Some r"
  shows "\<exists>evs. r = (Inr (), c, t\<lparr>outbox := outbox t @ data, sched := evs\<rparr>)"
proof -
  have loop: "send_loop se data 0 c t = Some r"
    using assms(1,3) by (simp add: send_data_def)
  have "\<exists>evs. r = (Inr (), c, t\<lparr>outbox := outbox t @ drop 0 data, sched := evs\<rparr>)"
    by (rule send_loop_sound [OF refl assms(2) _ loop]) simp
  then show ?thesis by simp
qed

lemma send_data_returns:
  assumes "open c" "partial_io (sched t)" "length data \<le> moves (sched t)"
  shows "\<exists>evs. send_data se data c t
           = Some (Inr (), c, t\<lparr>outbox := outbox t @ data, sched := evs\<rparr>)"
proof -
  have "\<exists>evs. send_loop se data 0 c t
           = Some (Inr (), c, t\<lparr>outbox := outbox t @ drop 0 data, sched := evs\<rparr>)"
    by (rule send_loop_returns [OF refl assms(2)]) (use assms(3) in simp_all)
  then show ?thesis using assms(1) by (simp add: send_data_def)
qed

lemma byte_mask: "(0xFF00 :: 32 word) = push_bit 8 (mask 8)"
  by (simp add: mask_eq_exp_minus_1)

lemma four_ranges:
  "(k::nat) < 8 \<or> (8 \<le> k \<and> k < 16) \<or> (16 \<le> k \<and> k < 24) \<or> 24 \<le> k"
  by arith

lemma memcpy_be32_bytes: "memcpy_u32 BigEndian (be32_bytes n) = n"
proof (rule bit_word_eqI)
  fix k :: nat
  assume "k < LENGTH(32)"
  then have k: "k < 32" by simp
  show "bit (memcpy_u32 BigEndian (be32_bytes n)) k = bit n k"
    using four_ranges [of k] k
    by (elim disjE) (auto simp add: be32_bytes_def bit_simps)
qed

lemma bswap32_little:
  "bswap32 (memcpy_u32 LittleEndian [b0, b1, b2, b3]) = memcpy_u32 BigEndian [b0, b1, b2, b3]"
proof (rule bit_word_eqI)
  fix k :: nat
  assume "k < LENGTH(32)"
  then have k: "k < 32" by simp
  show "bit (bswap32 (memcpy_u32 LittleEndian [b0, b1, b2, b3])) k
          = bit (memcpy_u32 BigEndian [b0, b1, b2, b3]) k"
    using four_ranges [of k] k
    by (elim disjE) (auto simp add: bswap32_def byte_mask bit_simps dest: bit_imp_le_length)
qed

lemma four_bytes: "length bs = 4 \<Longrightarrow> \<exists>b0 b1 b2 b3. bs = [b0, b1, b2, b3]"
  by (cases bs; simp; cases "tl bs"; simp; cases "tl (tl bs)"; simp; cases "tl (tl (tl bs))"; auto)

lemma ntohl_memcpy:
  assumes "length bs = 4"
  shows "ntohl host (memcpy_u32 host bs) = memcpy_u32 BigEndian bs"
proof -
  from four_bytes [OF assms] obtain b0 b1 b2 b3 where "bs = [b0, b1, b2, b3]" by blast
  then show ?thesis
    by (cases host) (simp_all add: ntohl_def bswap32_little del: memcpy_u32.simps)
qed

lemma receive_length_prefix_returns:
  assumes "open c" "partial_io (sched t)" "4 \<le> length (inbox t)" "4 \<le> moves (sched t)"
  shows "\<exists>evs. receive_length_prefix host se c t
           = Some (Inr (memcpy_u32 BigEndian (take 4 (inbox t))), c,
                   t\<lparr>inbox := drop 4 (inbox t), sched := evs\<rparr>)"
proof -
  from receive_data_returns [OF assms] obtain evs where
    "receive_data se 4 c t
       = Some (Inr (take 4 (inbox t)), c, t\<lparr>inbox := drop 4 (inbox t), sched := evs\<rparr>)"
    by blast
  moreover have "length (take 4 (inbox t)) = 4" using assms(3) by simp
  ultimately show ?thesis
    by (auto simp: receive_length_prefix_def ntohl_memcpy)
qed

section \<open>Closed connections and released descriptors\<close>

lemma send_loop_done:
  "\<not> tot < length data \<Longrightarrow> send_loop se data tot c t = Some (Inr (), c, t)"
  by (subst send_loop.simps) simp

lemma closed_send_data:
  "\<not> open c \<Longrightarrow> send_data se data c t = Some (Inl (ConnectionError ''Connection is closed''), c, t)"
  by (simp add: send_data_def)

lemma closed_receive_data:
  "\<not> open c \<Longrightarrow> receive_data se n c t = Some (Inl (ConnectionError ''Connection is closed''), c, t)"
  by (simp add: receive_data_def)

lemma closed_receive_length_prefix:
  "\<not> open c \<Longrightarrow> receive_length_prefix host se c t
                   = Some (Inl (ConnectionError ''Connection is closed''), c, t)"
  by (simp add: receive_length_prefix_def closed_receive_data)

lemma closed_close_connection: "\<not> open c \<Longrightarrow> close_connection c t = (c, t)"
  by (simp add: close_connection_def)

lemma closed_destructor: "\<not> open c \<Longrightarrow> destructor c t = (c, t)"
  by (simp add: destructor_def)

lemma closed_step:
  "\<not> open c \<Longrightarrow> conn_step host se x c t = Some (closed_outcome x, c, t)"
  by (cases x)
     (simp_all add: closed_send_data closed_receive_data closed_receive_length_prefix
        closed_close_connection closed_destructor is_open_def)

lemma closed_run:
  "\<not> open c \<Longrightarrow> conn_run host se xs c t = Some (map closed_outcome xs, c, t)"
  by (induction xs) (simp_all add: closed_step)

text \<open>What one call may do to the connection and to the released descriptors.\<close>

lemma send_loop_frame:
  "send_loop se data tot c t = Some (r, c', t')
   \<Longrightarrow> released t' = released t \<and> (c' = c \<or> c' = c\<lparr>open := False\<rparr>)"
proof (induction se data tot c t rule: send_loop.induct)
  case (1 se data tot c t)
  show ?case
  proof (cases "tot < length data")
    case False
    with "1.prems" show ?thesis by (simp add: send_loop_done)
  next
    case True
    show ?thesis
    proof (cases "sys_send (drop tot data) t")
      case None
      with "1.prems" True show ?thesis by (subst (asm) send_loop.simps) simp
    next
      case (Some a)
      obtain res t1 where a: "a = (res, t1)" by (cases a)
      have rel: "released t1 = released t"
        using Some a by (auto simp: sys_send_def split: list.splits sys_event.splits)
      show ?thesis
      proof (cases res)
        case (Ret sent)
        have "send_loop se data (tot + sent) c t1 = Some (r, c', t')"
          using "1.prems" True Some a Ret by (subst (asm) send_loop.simps) simp
        from "1.IH"(1) [OF True Some a [symmetric] Ret this] rel show ?thesis by simp
      next
        case (Errno e)
        show ?thesis
        proof (cases "e = EINTR")
          case intr: True
          have "send_loop se data tot c t1 = Some (r, c', t')"
            using "1.prems" True Some a Errno intr by (subst (asm) send_loop.simps) simp
          from "1.IH"(2) [OF True Some a [symmetric] Errno intr this] rel show ?thesis by simp
        next
          case False
          then show ?thesis
            using "1.prems" True Some a Errno rel by (subst (asm) send_loop.simps) auto
        qed
      qed
    qed
  qed
qed


lemma sys_recv_released:
  "sys_recv len t = Some (res, t1) \<Longrightarrow> released t1 = released t"
  by (auto simp: sys_recv_def split: list.splits sys_event.splits)

lemma recv_loop_frame:
  "recv_loop se n buffer tot c t = Some (r, c', t')
   \<Longrightarrow> released t' = released t \<and> (c' = c \<or> c' = c\<lparr>open := False\<rparr>)"
proof (induction se n buffer tot c t rule: recv_loop.induct)
  case (1 se n buffer tot c t)
  show ?case
  proof (cases "tot < n")
    case False
    with "1.prems" show ?thesis by (simp add: recv_loop_done)
  next
    case True
    show ?thesis
    proof (cases "sys_recv (n - tot) t")
      case None
      with "1.prems" True show ?thesis by (simp add: recv_loop_blocked)
    next
      case (Some a)
      obtain res t1 where a: "a = (res, t1)" by (cases a)
      have s: "sys_recv (n - tot) t = Some (res, t1)" using Some a by simp
      have rel: "released t1 = released t" by (rule sys_recv_released [OF s])
      show ?thesis
      proof (cases res)
        case (Ret chunk)
        show ?thesis
        proof (cases "length chunk = 0")
          case True
          then show ?thesis
            using "1.prems" recv_loop_eof [OF \<open>tot < n\<close>, of t t1 se buffer c] s Ret rel by auto
        next
          case False
          then have ne: "chunk \<noteq> []" by simp
          have "recv_loop se n (store_at buffer tot chunk) (tot + length chunk) c t1
                  = Some (r, c', t')"
            using "1.prems" recv_loop_chunk [OF True s [unfolded Ret] ne] by simp
          from "1.IH"(1) [OF True Some a [symmetric] Ret False this] rel show ?thesis by simp
        qed
      next
        case (Errno e)
        show ?thesis
        proof (cases "e = EINTR")
          case intr: True
          have "recv_loop se n buffer tot c t1 = Some (r, c', t')"
            using "1.prems" recv_loop_eintr [OF True s [unfolded Errno intr]] by simp
          from "1.IH"(2) [OF True Some a [symmetric] Errno intr this] rel show ?thesis by simp
        next
          case False
          then show ?thesis
            using "1.prems" recv_loop_errno [OF True s [unfolded Errno] False] rel by auto
        qed
      qed
    qed
  qed
qed

lemma conn_step_frame:
  assumes "conn_step host se x c t = Some (r, c', t')"
  shows "(released t' = released t \<and> (c' = c \<or> c' = c\<lparr>open := False\<rparr>))
       \<or> (open c \<and> \<not> open c' \<and> released t' = released t @ [fd c])"
proof (cases x)
  case (SendData data)
  with assms show ?thesis
    by (auto simp: send_data_def split: option.splits sum.splits if_splits
             dest: send_loop_frame)
next
  case (ReceiveData n)
  with assms show ?thesis
    by (auto simp: receive_data_def split: option.splits sum.splits if_splits
             dest: recv_loop_frame)
next
  case ReceiveLengthPrefix
  with assms show ?thesis
    by (auto simp: receive_length_prefix_def receive_data_def
             split: option.splits sum.splits if_splits dest: recv_loop_frame)
next
  case CloseConnection
  with assms show ?thesis
    by (auto simp: close_connection_def sys_close_def split: if_splits)
next
  case IsOpen
  with assms show ?thesis by auto
next
  case Destroy
  with assms show ?thesis
    by (auto simp: destructor_def close_connection_def sys_close_def split: if_splits)
qed

lemma conn_run_frame:
  "conn_run host se xs c t = Some (rs, c', t')
   \<Longrightarrow> (open c' \<longrightarrow> open c)
     \<and> (released t' = released t \<or> (open c \<and> \<not> open c' \<and> released t' = released t @ [fd c]))"
proof (induction xs arbitrary: c t rs)
  case Nil
  then show ?case by simp
next
  case (Cons x xs)
  from Cons.prems obtain r c1 t1 rs1 where
    step: "conn_step host se x c t = Some (r, c1, t1)" and
    rest: "conn_run host se xs c1 t1 = Some (rs1, c', t')"
    by (auto split: option.splits)
  note IH = Cons.IH [OF rest]
  from conn_step_frame [OF step] show ?case
  proof (elim disjE conjE)
    assume "released t1 = released t" "c1 = c"
    with IH show ?thesis by simp
  next
    assume a: "released t1 = released t" "c1 = c\<lparr>open := False\<rparr>"
    then have cl: "\<not> open c1" by simp
    from closed_run [OF cl, of host se xs t1] rest have "c' = c1" "t' = t1" by simp_all
    with a cl show ?thesis by simp
  next
    assume a: "open c" "\<not> open c1" "released t1 = released t @ [fd c]"
    from closed_run [OF a(2), of host se xs t1] rest have "c' = c1" "t' = t1" by simp_all
    with a show ?thesis by simp
  qed
qed

lemma quiet_run:
  "conn_run LittleEndian strerror_sample [CloseConnection, SendData [1], CloseConnection, Destroy]
      (Connection 5) quiet
   = Some ([Done, Threw (ConnectionError ''Connection is closed''), Done, Done],
           \<lparr>fd = -1, open = False\<rparr>, quiet\<lparr>released := [5]\<rparr>)"
  by (simp add: send_data_def close_connection_def destructor_def Connection_def sys_close_def
        quiet_def)

lemma recv_loop_peer_closed:
  "sched t = evs \<Longrightarrow> partial_io evs \<Longrightarrow> tot \<le> n \<Longrightarrow> length (inbox t) < n - tot
   \<Longrightarrow> length (inbox t) < moves evs
   \<Longrightarrow> \<exists>evs'. recv_loop se n buffer tot c t
         = Some (Inl (ConnectionError ''Connection closed by peer''), c\<lparr>open := False\<rparr>,
                 t\<lparr>inbox := [], sched := evs'\<rparr>)"
proof (induction evs arbitrary: t tot buffer)
  case Nil
  then show ?case by (simp add: moves_def)
next
  case (Cons ev evs)
  have run: "tot < n" using Cons.prems(4) by simp
  have pio: "partial_io evs" using Cons.prems(2) by (simp add: partial_io_Cons)
  show ?case
  proof (cases ev)
    case (Fail e)
    with Cons.prems have e: "e = EINTR" by (simp add: partial_io_Cons)
    let ?t' = "t\<lparr>sched := evs\<rparr>"
    have s: "sys_recv (n - tot) t = Some (Errno EINTR, ?t')"
      using Cons.prems Fail e by (simp add: sys_recv_def)
    have sch: "sched ?t' = evs" by simp
    have inb: "length (inbox ?t') < n - tot" using Cons.prems(4) by simp
    have mv: "length (inbox ?t') < moves evs" using Cons.prems(5) Fail by (simp add: moves_Cons)
    from Cons.IH [OF sch pio Cons.prems(3) inb mv, of buffer]
      recv_loop_eintr [OF run s, where se = se and buffer = buffer and c = c]
    show ?thesis by simp
  next
    case (Xfer k)
    with Cons.prems have k: "0 < k" by (simp add: partial_io_Cons)
    let ?m = "min k (n - tot)"
    let ?chunk = "take ?m (inbox t)"
    let ?t' = "t\<lparr>inbox := drop ?m (inbox t), sched := evs\<rparr>"
    have s: "sys_recv (n - tot) t = Some (Ret ?chunk, ?t')"
      using Cons.prems Xfer by (simp add: sys_recv_def)
    show ?thesis
    proof (cases "inbox t = []")
      case True
      then have "sys_recv (n - tot) t = Some (Ret [], t\<lparr>inbox := [], sched := evs\<rparr>)"
        using s by simp
      from recv_loop_eof [OF run this] show ?thesis by blast
    next
      case False
      have m: "0 < ?m" using run k by simp
      have ne: "?chunk \<noteq> []" using False m by simp
      have len: "length ?chunk = min k (length (inbox t))" using Cons.prems(4) by simp
      have sch: "sched ?t' = evs" by simp
      have tot': "tot + length ?chunk \<le> n" using Cons.prems(4) len by simp
      have inb: "length (inbox ?t') < n - (tot + length ?chunk)"
        using Cons.prems(4) len by (simp add: min_def split: if_splits)
      have l0: "1 \<le> length (inbox t)" using False by (cases "inbox t") simp_all
      have l1: "length (inbox t) < Suc (moves evs)"
        using Cons.prems(5) Xfer k by (simp add: moves_Cons)
      have l2: "length (inbox ?t') = length (inbox t) - ?m" by simp
      have mv: "length (inbox ?t') < moves evs"
        unfolding l2 using l0 l1 m by linarith
      from Cons.IH [OF sch pio tot' inb mv, of "store_at buffer tot ?chunk"]
        recv_loop_chunk [OF run s ne, where se = se and buffer = buffer and c = c]
      show ?thesis by simp
    qed
  qed
qed

section \<open>Framing\<close>

lemma sys_recv_sched:
  assumes "sys_recv len t = Some (res, t1)" and "partial_io (sched t)"
  shows "partial_io (sched t1)" and "moves (sched t) \<le> Suc (moves (sched t1))"
    and "res = Errno e \<Longrightarrow> moves (sched t) = moves (sched t1)"
  using assms
  by (auto simp: sys_recv_def partial_io_Cons moves_Cons split: list.splits sys_event.splits)

lemma recv_loop_rest:
  "recv_loop se n buffer tot c t = Some (r, c', t') \<Longrightarrow> partial_io (sched t)
   \<Longrightarrow> partial_io (sched t') \<and> moves (sched t) \<le> moves (sched t') + (n - tot)"
proof (induction se n buffer tot c t rule: recv_loop.induct)
  case (1 se n buffer tot c t)
  show ?case
  proof (cases "tot < n")
    case False
    with "1.prems" show ?thesis by (simp add: recv_loop_done)
  next
    case True
    show ?thesis
    proof (cases "sys_recv (n - tot) t")
      case None
      with "1.prems" True show ?thesis by (simp add: recv_loop_blocked)
    next
      case (Some a)
      obtain res t1 where a: "a = (res, t1)" by (cases a)
      have s: "sys_recv (n - tot) t = Some (res, t1)" using Some a by simp
      note sch = sys_recv_sched [OF s "1.prems"(2)]
      show ?thesis
      proof (cases res)
        case (Ret chunk)
        show ?thesis
        proof (cases "length chunk = 0")
          case True
          then have "t' = t1"
            using "1.prems"(1) recv_loop_eof [OF \<open>tot < n\<close>, of t t1 se buffer c] s Ret by auto
          with sch \<open>tot < n\<close> show ?thesis by simp
        next
          case False
          then have ne: "chunk \<noteq> []" by simp
          have "recv_loop se n (store_at buffer tot chunk) (tot + length chunk) c t1
                  = Some (r, c', t')"
            using "1.prems"(1) recv_loop_chunk [OF True s [unfolded Ret] ne] by simp
          from "1.IH"(1) [OF True Some a [symmetric] Ret False this sch(1)]
          have "partial_io (sched t')"
            and "moves (sched t1) \<le> moves (sched t') + (n - (tot + length chunk))"
            by simp_all
          moreover have "1 \<le> length chunk" using ne by (cases chunk) simp_all
          ultimately show ?thesis using sch(2) True by simp
        qed
      next
        case (Errno e)
        show ?thesis
        proof (cases "e = EINTR")
          case intr: True
          have "recv_loop se n buffer tot c t1 = Some (r, c', t')"
            using "1.prems"(1) recv_loop_eintr [OF True s [unfolded Errno intr]] by simp
          from "1.IH"(2) [OF True Some a [symmetric] Errno intr this sch(1)] sch(3) [OF Errno]
          show ?thesis by simp
        next
          case False
          then have "t' = t1"
            using "1.prems"(1) recv_loop_errno [OF True s [unfolded Errno] False] by auto
          with sch \<open>tot < n\<close> show ?thesis by simp
        qed
      qed
    qed
  qed
qed

lemma receive_data_rest:
  assumes "open c" "partial_io (sched t)" "n \<le> length (inbox t)" "n \<le> moves (sched t)"
  shows "\<exists>evs. receive_data se n c t
           = Some (Inr (take n (inbox t)), c, t\<lparr>inbox := drop n (inbox t), sched := evs\<rparr>)
         \<and> partial_io evs \<and> moves (sched t) \<le> moves evs + n"
proof -
  from receive_data_returns [OF assms] obtain evs where
    r: "receive_data se n c t
          = Some (Inr (take n (inbox t)), c, t\<lparr>inbox := drop n (inbox t), sched := evs\<rparr>)"
    by blast
  then have "recv_loop se n (replicate n 0) 0 c t
          = Some (Inr (take n (inbox t)), c, t\<lparr>inbox := drop n (inbox t), sched := evs\<rparr>)"
    using assms(1) by (simp add: receive_data_def)
  from recv_loop_rest [OF this assms(2)] r show ?thesis by auto
qed

lemma length_be32_bytes: "length (be32_bytes n) = 4"
  by (simp add: be32_bytes_def)

lemma read_message_frame:
  assumes "open c" "partial_io (sched t)" "inbox t = frame payload @ rest"
    and "length payload < 2 ^ 32" "4 + length payload \<le> moves (sched t)"
  shows "\<exists>evs. read_message host se c t
           = Some (Inr payload, c, t\<lparr>inbox := rest, sched := evs\<rparr>)"
proof -
  let ?n = "of_nat (length payload) :: 32 word"
  have inb: "inbox t = be32_bytes ?n @ payload @ rest"
    using assms(3) by (simp add: frame_def)
  have l4: "4 \<le> length (inbox t)" "4 \<le> moves (sched t)"
    using inb assms(5) by (simp_all add: length_be32_bytes)
  from receive_data_rest [OF assms(1,2) l4] obtain evs where
    r4: "receive_data se 4 c t
          = Some (Inr (take 4 (inbox t)), c, t\<lparr>inbox := drop 4 (inbox t), sched := evs\<rparr>)"
    and evs: "partial_io evs" "moves (sched t) \<le> moves evs + 4"
    by blast
  have t4: "take 4 (inbox t) = be32_bytes ?n" "drop 4 (inbox t) = payload @ rest"
    using inb by (simp_all add: length_be32_bytes)
  have "ntohl host (memcpy_u32 host (be32_bytes ?n)) = ?n"
    by (simp add: ntohl_memcpy length_be32_bytes memcpy_be32_bytes)
  then have p: "receive_length_prefix host se c t
          = Some (Inr ?n, c, t\<lparr>inbox := payload @ rest, sched := evs\<rparr>)"
    using r4 t4 by (simp add: receive_length_prefix_def)
  have un: "unat ?n = length payload"
    using assms(4) by (simp add: unat_of_nat)
  let ?t1 = "t\<lparr>inbox := payload @ rest, sched := evs\<rparr>"
  have "\<exists>evs'. receive_data se (length payload) c ?t1
           = Some (Inr (take (length payload) (inbox ?t1)), c,
                   ?t1\<lparr>inbox := drop (length payload) (inbox ?t1), sched := evs'\<rparr>)"
    by (rule receive_data_returns) (use assms(1,5) evs in simp_all)
  then show ?thesis
    using p un by (simp add: read_message_def)
qed

section \<open>The dispatcher and the registry\<close>

lemma try_block_miss:
  "function_registry s name = None
   \<Longrightarrow> try_block J name args s = (Inl (FunctionNotFoundError ''Function not found''), s)"
  by (simp add: try_block_def count_def)

lemma try_block_hit:
  "function_registry s name = Some func
   \<Longrightarrow> try_block J name args s
       = (case func args of
            Inl e \<Rightarrow> (Inl e, s)
          | Inr result \<Rightarrow> (Inr (serialize_response J (success_response result)), s))"
  by (simp add: try_block_def count_def at_or_insert_def split: sum.splits)

lemma try_block_server: "snd (try_block J name args s) = s"
  by (cases "function_registry s name")
     (simp_all add: try_block_miss try_block_hit split: sum.splits)

lemma catch_clauses_server: "snd (catch_clauses J r) = snd r"
  by (auto simp: catch_clauses_def split: prod.splits sum.splits exn.splits)

lemma process_json_request_server: "snd (process_json_request J request s) = s"
  by (simp add: process_json_request_def catch_clauses_server try_block_server
           split: sum.splits bool.splits)

lemma calls_dispatch:
  assumes "calls J request name args"
  shows "process_json_request J request s = catch_clauses J (try_block J name args s)"
proof -
  from assms obtain members function_value where
    p: "parseFromStream J request = Inr (JObject members)" and
    f: "map_of members ''function'' = Some function_value" and
    a: "map_of members ''args'' = Some args" and
    n: "asString J function_value = Inr name"
    by (auto simp: calls_def split: sum.splits json.splits option.splits)
  have "missing_fields (JObject members) = Inr False"
    using f a by (simp add: missing_fields_def isMember_def)
  then show ?thesis
    using p f a n by (simp add: process_json_request_def subscript_def)
qed

lemma catch_not_found:
  "catch_clauses J (Inl (FunctionNotFoundError m), s)
     = (Inr (serialize_response J (error_response m)), s)"
  by (simp add: catch_clauses_def)

lemma catch_std:
  "is_std_exception e \<Longrightarrow> \<forall>m. e \<noteq> FunctionNotFoundError m
   \<Longrightarrow> catch_clauses J (Inl e, s)
       = (Inr (serialize_response J (error_response (''Execution error: '' @ what e))), s)"
  by (cases e) (simp_all add: catch_clauses_def)

lemma catch_response: "catch_clauses J (Inr response, s) = (Inr response, s)"
  by (simp add: catch_clauses_def)

lemma running_step:
  "running s \<Longrightarrow> x \<noteq> Stop \<Longrightarrow> server_step J s x = s"
  by (cases x) (simp_all add: register_function_def start_def process_json_request_server)

lemma running_run:
  "running s \<Longrightarrow> Stop \<notin> set xs \<Longrightarrow> server_run J s xs = s"
  by (induction xs) (auto simp: server_run_def running_step)

lemma server_step_keeps:
  "function_registry s name = Some func \<Longrightarrow> function_registry (server_step J s x) name = Some func"
  by (cases x)
     (auto simp: register_function_def count_def start_def stop_def process_json_request_server
           split: sum.splits option.splits)

lemma server_run_keeps:
  "function_registry s name = Some func \<Longrightarrow> function_registry (server_run J s xs) name = Some func"
  unfolding server_run_def
  by (induction xs arbitrary: s) (simp_all add: server_step_keeps)

text \<open>The sample requests and servers, evaluated.\<close>

lemmas requests =
  echo_request_def echo_no_args_request_def missing_request_def relay_request_def
  no_function_request_def array_request_def array_name_request_def malformed_request_def

lemma sample_calls:
  "calls sample_json echo_request ''echo'' (JArray [JInt 7])"
  "calls sample_json echo_no_args_request ''echo'' (JArray [])"
  "calls sample_json missing_request ''missing'' (JArray [])"
  "calls sample_json relay_request ''relay'' (JArray [])"
  by (simp_all add: calls_def sample_json_def sample_parser_def requests asString_def)

lemma sample_registry:
  "function_registry listening ''echo'' = Some echo"
  "function_registry listening ''relay'' = Some relay"
  "function_registry listening ''missing'' = None"
  "function_registry listening ''late'' = None"
  "running listening"
  "\<not> running registered"
  "function_registry registered ''echo'' = Some echo"
  "function_registry registered ''late'' = None"
  by (simp_all add: listening_def registered_def created_def)

lemma sample_parses:
  "parseFromStream sample_json malformed_request
     = Inl ''* Line 1, Column 1 Syntax error: value, object or array expected.''"
  "parseFromStream sample_json no_function_request = Inr (JObject [(''args'', JArray [])])"
  "parseFromStream sample_json array_request = Inr (JArray [JInt 1, JInt 2])"
  "parseFromStream sample_json array_name_request
     = Inr (JObject [(''function'', JArray []), (''args'', JArray [])])"
  by (simp_all add: sample_json_def sample_parser_def requests)

section \<open>Claims\<close>

text \<open>
  C1. The claim is that \<open>process_json_request\<close> returns a framed response for every input
  and raises nothing. The code does not do that: the membership test and \<^verbatim>\<open>asString\<close>
  stand before the \<^verbatim>\<open>try\<close>, so a request that parses to an array (or to any value that
  is neither an object nor null) makes \<^verbatim>\<open>isMember\<close> throw \<^verbatim>\<open>Json::LogicError\<close> out of
  \<open>process_json_request\<close>, and so does an object whose \<^verbatim>\<open>"function"\<close> member is an array;
  a handler that throws an object not derived from \<^verbatim>\<open>std::exception\<close> is caught by
  neither \<^verbatim>\<open>catch\<close> clause. In each case an exception, and no response, is the result.
\<close>

theorem dispatch_raises:
  "(parseFromStream J request = Inr root \<and> root \<noteq> JNull \<and> (\<forall>members. root \<noteq> JObject members)
      \<longrightarrow> process_json_request J request s
            = (Inl (JsonLogicError
                      ''in Json::Value::find(begin, end): requires objectValue or nullValue''), s))
   \<and> (parseFromStream J request = Inr (JObject members)
        \<and> map_of members ''function'' = Some (JArray xs) \<and> map_of members ''args'' = Some args
        \<longrightarrow> process_json_request J request s
              = (Inl (JsonLogicError ''Type is not convertible to string''), s))
   \<and> (calls J request name args \<and> function_registry s name = Some func
        \<and> func args = Inl NonStdThrow
        \<longrightarrow> process_json_request J request s = (Inl NonStdThrow, s))"
proof (intro conjI impI)
  assume "parseFromStream J request = Inr root \<and> root \<noteq> JNull
          \<and> (\<forall>members. root \<noteq> JObject members)"
  then show "process_json_request J request s
        = (Inl (JsonLogicError
                  ''in Json::Value::find(begin, end): requires objectValue or nullValue''), s)"
    by (cases root) (simp_all add: process_json_request_def missing_fields_def isMember_def)
next
  assume "parseFromStream J request = Inr (JObject members)
        \<and> map_of members ''function'' = Some (JArray xs) \<and> map_of members ''args'' = Some args"
  then show "process_json_request J request s
              = (Inl (JsonLogicError ''Type is not convertible to string''), s)"
    by (simp add: process_json_request_def missing_fields_def isMember_def subscript_def
          asString_def)
next
  assume a: "calls J request name args \<and> function_registry s name = Some func
        \<and> func args = Inl NonStdThrow"
  then have c: "calls J request name args" by simp
  from a show "process_json_request J request s = (Inl NonStdThrow, s)"
    by (simp add: calls_dispatch [OF c] try_block_hit catch_clauses_def)
qed

theorem dispatch_raises_witness:
  "parseFromStream sample_json array_request = Inr (JArray [JInt 1, JInt 2])
   \<and> JArray [JInt 1, JInt 2] \<noteq> JNull
   \<and> process_json_request sample_json array_request listening
       = (Inl (JsonLogicError
                 ''in Json::Value::find(begin, end): requires objectValue or nullValue''),
          listening)
   \<and> parseFromStream sample_json array_name_request
       = Inr (JObject [(''function'', JArray []), (''args'', JArray [])])
   \<and> process_json_request sample_json array_name_request listening
       = (Inl (JsonLogicError ''Type is not convertible to string''), listening)
   \<and> calls sample_json echo_request ''echo'' (JArray [JInt 7])
   \<and> function_registry crashing ''echo'' = Some crash
   \<and> crash (JArray [JInt 7]) = Inl NonStdThrow
   \<and> process_json_request sample_json echo_request crashing = (Inl NonStdThrow, crashing)"
proof -
  have a: "process_json_request sample_json array_request listening
       = (Inl (JsonLogicError
                 ''in Json::Value::find(begin, end): requires objectValue or nullValue''),
          listening)"
    by (rule dispatch_raises [THEN conjunct1, rule_format,
              where root = "JArray [JInt 1, JInt 2]"])
       (simp add: sample_parses)
  have b: "process_json_request sample_json array_name_request listening
       = (Inl (JsonLogicError ''Type is not convertible to string''), listening)"
    by (rule dispatch_raises [THEN conjunct2, THEN conjunct1, rule_format,
              where members = "[(''function'', JArray []), (''args'', JArray [])]"
                and xs = "[]" and args = "JArray []"])
       (simp add: sample_parses)
  have r: "function_registry crashing ''echo'' = Some crash" by (simp add: crashing_def)
  have t: "crash (JArray [JInt 7]) = Inl NonStdThrow" by (simp add: crash_def)
  have c: "process_json_request sample_json echo_request crashing = (Inl NonStdThrow, crashing)"
    by (rule dispatch_raises [THEN conjunct2, THEN conjunct2, rule_format,
              where name = "''echo''" and args = "JArray [JInt 7]" and func = crash])
       (simp add: sample_calls r t)
  have n: "JArray [JInt 1, JInt 2] \<noteq> JNull" by simp
  from sample_parses(3) n a sample_parses(4) b sample_calls(1) r t c
  show ?thesis by (intro conjI)
qed

text \<open>
  C2, as stated, has every failure of the invoked handler reported as
  \<^verbatim>\<open>"Execution error: <message>"\<close>. The first \<^verbatim>\<open>catch\<close> clause takes every
  \<^verbatim>\<open>FunctionNotFoundError\<close> thrown in the \<^verbatim>\<open>try\<close>, the handler's too: a registered handler
  that throws \<^verbatim>\<open>FunctionNotFoundError("no such backend")\<close> is answered with the message
  \<^verbatim>\<open>"no such backend"\<close>, without the prefix.
\<close>

theorem handler_failure_message_counterexample:
  "calls sample_json relay_request ''relay'' (JArray [])
   \<and> function_registry listening ''relay'' = Some relay
   \<and> relay (JArray []) = Inl (FunctionNotFoundError ''no such backend'')
   \<and> process_json_request sample_json relay_request listening
       = (Inr (serialize_response sample_json (error_response ''no such backend'')), listening)
   \<and> serialize_response sample_json (error_response ''no such backend'')
       \<noteq> serialize_response sample_json (error_response ''Execution error: no such backend'')"
proof -
  have "process_json_request sample_json relay_request listening
       = (Inr (serialize_response sample_json (error_response ''no such backend'')), listening)"
    by (simp add: calls_dispatch [OF sample_calls(4)] try_block_hit [OF sample_registry(2)]
          relay_def catch_not_found)
  moreover have "serialize_response sample_json (error_response ''no such backend'')
       \<noteq> serialize_response sample_json (error_response ''Execution error: no such backend'')"
    by (simp add: serialize_response_def frame_def sample_json_def error_response_def
          bytes_of_string_def quoted_def be32_bytes_def)
  ultimately show ?thesis
    by (simp add: sample_calls sample_registry relay_def)
qed

text \<open>
  C2, amended. \<open>process_json_request\<close> decides in this order: a text the parser rejects
  gives \<^verbatim>\<open>Error("Invalid JSON: <parser diagnostic>")\<close>; a parsed object without a
  \<^verbatim>\<open>"function"\<close> or without an \<^verbatim>\<open>"args"\<close> member gives
  \<^verbatim>\<open>Error("Missing 'function' or 'args' field")\<close>; a request that calls a name absent from
  the registry gives \<^verbatim>\<open>Error("Function not found")\<close>; a handler that throws an exception
  derived from \<^verbatim>\<open>std::exception\<close>, other than \<^verbatim>\<open>FunctionNotFoundError\<close>, gives
  \<^verbatim>\<open>Error("Execution error: <what()>")\<close>; a handler that throws
  \<^verbatim>\<open>FunctionNotFoundError(m)\<close> gives \<^verbatim>\<open>Error(m)\<close>; and a value the handler returns is
  wrapped as \<^verbatim>\<open>Success(value)\<close>. Each response is the frame of the JSON text, and the
  server is left as it was.
\<close>

theorem dispatch_cases:
  "(parseFromStream J request = Inl errors \<longrightarrow>
      process_json_request J request s
        = (Inr (serialize_response J (error_response (''Invalid JSON: '' @ errors))), s))
   \<and> (parseFromStream J request = Inr (JObject members)
        \<and> (map_of members ''function'' = None \<or> map_of members ''args'' = None) \<longrightarrow>
      process_json_request J request s
        = (Inr (serialize_response J (error_response ''Missing 'function' or 'args' field'')), s))
   \<and> (calls J request name args \<and> function_registry s name = None \<longrightarrow>
      process_json_request J request s
        = (Inr (serialize_response J (error_response ''Function not found'')), s))
   \<and> (calls J request name args \<and> function_registry s name = Some func
        \<and> func args = Inl e \<and> is_std_exception e \<and> (\<forall>m. e \<noteq> FunctionNotFoundError m) \<longrightarrow>
      process_json_request J request s
        = (Inr (serialize_response J (error_response (''Execution error: '' @ what e))), s))
   \<and> (calls J request name args \<and> function_registry s name = Some func
        \<and> func args = Inl (FunctionNotFoundError m) \<longrightarrow>
      process_json_request J request s = (Inr (serialize_response J (error_response m)), s))
   \<and> (calls J request name args \<and> function_registry s name = Some func
        \<and> func args = Inr result \<longrightarrow>
      process_json_request J request s
        = (Inr (serialize_response J (success_response result)), s))"
proof (intro conjI impI)
  assume "parseFromStream J request = Inl errors"
  then show "process_json_request J request s
        = (Inr (serialize_response J (error_response (''Invalid JSON: '' @ errors))), s)"
    by (simp add: process_json_request_def)
next
  assume a: "parseFromStream J request = Inr (JObject members)
        \<and> (map_of members ''function'' = None \<or> map_of members ''args'' = None)"
  then have "missing_fields (JObject members) = Inr True"
    by (auto simp: missing_fields_def isMember_def split: option.splits)
  with a show "process_json_request J request s
        = (Inr (serialize_response J (error_response ''Missing 'function' or 'args' field'')), s)"
    by (simp add: process_json_request_def)
next
  assume a: "calls J request name args \<and> function_registry s name = None"
  then have c: "calls J request name args" by simp
  from a show "process_json_request J request s
        = (Inr (serialize_response J (error_response ''Function not found'')), s)"
    by (simp add: calls_dispatch [OF c] try_block_miss catch_not_found)
next
  assume a: "calls J request name args \<and> function_registry s name = Some func
        \<and> func args = Inl e \<and> is_std_exception e \<and> (\<forall>m. e \<noteq> FunctionNotFoundError m)"
  then have c: "calls J request name args" by simp
  from a show "process_json_request J request s
        = (Inr (serialize_response J (error_response (''Execution error: '' @ what e))), s)"
    by (simp add: calls_dispatch [OF c] try_block_hit catch_std)
next
  assume a: "calls J request name args \<and> function_registry s name = Some func
        \<and> func args = Inl (FunctionNotFoundError m)"
  then have c: "calls J request name args" by simp
  from a show "process_json_request J request s = (Inr (serialize_response J (error_response m)), s)"
    by (simp add: calls_dispatch [OF c] try_block_hit catch_not_found)
next
  assume a: "calls J request name args \<and> function_registry s name = Some func
        \<and> func args = Inr result"
  then have c: "calls J request name args" by simp
  from a show "process_json_request J request s
        = (Inr (serialize_response J (success_response result)), s)"
    by (simp add: calls_dispatch [OF c] try_block_hit catch_response)
qed

theorem dispatch_cases_witness:
  "parseFromStream sample_json malformed_request
     = Inl ''* Line 1, Column 1 Syntax error: value, object or array expected.''
   \<and> process_json_request sample_json malformed_request listening
     = (Inr (serialize_response sample_json (error_response
          (''Invalid JSON: '' @ ''* Line 1, Column 1 Syntax error: value, object or array expected.''))),
        listening)
   \<and> parseFromStream sample_json no_function_request = Inr (JObject [(''args'', JArray [])])
   \<and> map_of [(''args'', JArray [])] ''function'' = None
   \<and> process_json_request sample_json no_function_request listening
     = (Inr (serialize_response sample_json
               (error_response ''Missing 'function' or 'args' field'')), listening)
   \<and> calls sample_json missing_request ''missing'' (JArray [])
   \<and> function_registry listening ''missing'' = None
   \<and> process_json_request sample_json missing_request listening
     = (Inr (serialize_response sample_json (error_response ''Function not found'')), listening)
   \<and> calls sample_json echo_no_args_request ''echo'' (JArray [])
   \<and> function_registry listening ''echo'' = Some echo
   \<and> echo (JArray []) = Inl (InvalidArgument ''echo requires exactly one argument'')
   \<and> process_json_request sample_json echo_no_args_request listening
     = (Inr (serialize_response sample_json (error_response
          (''Execution error: '' @ what (InvalidArgument ''echo requires exactly one argument'')))),
        listening)
   \<and> calls sample_json relay_request ''relay'' (JArray [])
   \<and> function_registry listening ''relay'' = Some relay
   \<and> relay (JArray []) = Inl (FunctionNotFoundError ''no such backend'')
   \<and> process_json_request sample_json relay_request listening
     = (Inr (serialize_response sample_json (error_response ''no such backend'')), listening)
   \<and> calls sample_json echo_request ''echo'' (JArray [JInt 7])
   \<and> echo (JArray [JInt 7]) = Inr (JInt 7)
   \<and> process_json_request sample_json echo_request listening
     = (Inr (serialize_response sample_json (success_response (JInt 7))), listening)"
proof -
  note D = dispatch_cases [where J = sample_json and s = listening]
  have e0: "echo (JArray []) = Inl (InvalidArgument ''echo requires exactly one argument'')"
    and e1: "echo (JArray [JInt 7]) = Inr (JInt 7)"
    and r0: "relay (JArray []) = Inl (FunctionNotFoundError ''no such backend'')"
    by (simp_all add: echo_def relay_def)
  have m0: "map_of [(''args'', JArray [])] ''function'' = None" by simp
  have c1: "process_json_request sample_json malformed_request listening
     = (Inr (serialize_response sample_json (error_response
          (''Invalid JSON: '' @ ''* Line 1, Column 1 Syntax error: value, object or array expected.''))),
        listening)"
    by (rule D [THEN conjunct1, rule_format]) (rule sample_parses)
  have c2: "process_json_request sample_json no_function_request listening
     = (Inr (serialize_response sample_json
               (error_response ''Missing 'function' or 'args' field'')), listening)"
    by (rule D [THEN conjunct2, THEN conjunct1, rule_format,
                where members = "[(''args'', JArray [])]"])
       (simp add: sample_parses)
  have c3: "process_json_request sample_json missing_request listening
     = (Inr (serialize_response sample_json (error_response ''Function not found'')), listening)"
    by (rule D [THEN conjunct2, THEN conjunct2, THEN conjunct1, rule_format,
                where name = "''missing''" and args = "JArray []"])
       (simp add: sample_calls sample_registry)
  have c4: "process_json_request sample_json echo_no_args_request listening
     = (Inr (serialize_response sample_json (error_response
          (''Execution error: '' @ what (InvalidArgument ''echo requires exactly one argument'')))),
        listening)"
    by (rule D [THEN conjunct2, THEN conjunct2, THEN conjunct2, THEN conjunct1, rule_format,
                where name = "''echo''" and args = "JArray []" and func = echo])
       (simp add: sample_calls sample_registry e0)
  have c5: "process_json_request sample_json relay_request listening
     = (Inr (serialize_response sample_json (error_response ''no such backend'')), listening)"
    by (rule D [THEN conjunct2, THEN conjunct2, THEN conjunct2, THEN conjunct2, THEN conjunct1,
                rule_format, where name = "''relay''" and args = "JArray []" and func = relay])
       (simp add: sample_calls sample_registry r0)
  have c6: "process_json_request sample_json echo_request listening
     = (Inr (serialize_response sample_json (success_response (JInt 7))), listening)"
    by (rule D [THEN conjunct2, THEN conjunct2, THEN conjunct2, THEN conjunct2, THEN conjunct2,
                rule_format, where name = "''echo''" and args = "JArray [JInt 7]" and func = echo])
       (simp add: sample_calls sample_registry e1)
  from sample_parses(1) c1 sample_parses(2) m0 c2 sample_calls(3) sample_registry(3) c3
    sample_calls(2) sample_registry(1) e0 c4 sample_calls(4) sample_registry(2) r0 c5
    sample_calls(1) e1 c6
  show ?thesis by (intro conjI)
qed

text \<open>
  C3. On an open connection, under every script of partial transfers (chunks of at least
  one byte, in any sizes, with \<^verbatim>\<open>EINTR\<close> interruptions anywhere between them):
  whenever \<open>send_data\<close> returns it has appended exactly the bytes of the buffer, in
  order, to what the socket accepted, and it does return once the script moves bytes
  often enough; \<open>receive_data n\<close>, when the incoming stream holds \<open>n\<close> more bytes, gives
  exactly the next \<open>n\<close> bytes whenever it returns and leaves the rest in the stream, and
  it returns once the script moves bytes often enough; \<open>receive_length_prefix\<close> then gives
  the big-endian value of the next four bytes, whatever the host's byte order. The
  connection stays open in each case. A socket that moves one byte per call is one such
  script.
\<close>

theorem partial_transfers_assembled:
  assumes "open c" and "partial_io (sched t)"
  shows "(\<forall>r. send_data strerror data c t = Some r \<longrightarrow>
            (\<exists>evs. r = (Inr (), c, t\<lparr>outbox := outbox t @ data, sched := evs\<rparr>)))
       \<and> (length data \<le> moves (sched t) \<longrightarrow>
            (\<exists>evs. send_data strerror data c t
                     = Some (Inr (), c, t\<lparr>outbox := outbox t @ data, sched := evs\<rparr>)))
       \<and> (n \<le> length (inbox t) \<longrightarrow>
            (\<forall>r. receive_data strerror n c t = Some r \<longrightarrow>
               (\<exists>evs. r = (Inr (take n (inbox t)), c,
                             t\<lparr>inbox := drop n (inbox t), sched := evs\<rparr>))))
       \<and> (n \<le> length (inbox t) \<and> n \<le> moves (sched t) \<longrightarrow>
            (\<exists>evs. receive_data strerror n c t
                     = Some (Inr (take n (inbox t)), c,
                             t\<lparr>inbox := drop n (inbox t), sched := evs\<rparr>)))
       \<and> (4 \<le> length (inbox t) \<and> 4 \<le> moves (sched t) \<longrightarrow>
            (\<exists>evs. receive_length_prefix host strerror c t
                     = Some (Inr (memcpy_u32 BigEndian (take 4 (inbox t))), c,
                             t\<lparr>inbox := drop 4 (inbox t), sched := evs\<rparr>)))"
proof (intro conjI impI allI)
  fix r assume "send_data strerror data c t = Some r"
  then show "\<exists>evs. r = (Inr (), c, t\<lparr>outbox := outbox t @ data, sched := evs\<rparr>)"
    by (rule send_data_sound [OF assms])
next
  assume "length data \<le> moves (sched t)"
  then show "\<exists>evs. send_data strerror data c t
                     = Some (Inr (), c, t\<lparr>outbox := outbox t @ data, sched := evs\<rparr>)"
    by (rule send_data_returns [OF assms])
next
  fix r assume "n \<le> length (inbox t)" and "receive_data strerror n c t = Some r"
  then show "\<exists>evs. r = (Inr (take n (inbox t)), c, t\<lparr>inbox := drop n (inbox t), sched := evs\<rparr>)"
    by (rule receive_data_sound [OF assms])
next
  assume "n \<le> length (inbox t) \<and> n \<le> moves (sched t)"
  then show "\<exists>evs. receive_data strerror n c t
                     = Some (Inr (take n (inbox t)), c,
                             t\<lparr>inbox := drop n (inbox t), sched := evs\<rparr>)"
    using receive_data_returns [OF assms] by blast
next
  assume "4 \<le> length (inbox t) \<and> 4 \<le> moves (sched t)"
  then show "\<exists>evs. receive_length_prefix host strerror c t
                     = Some (Inr (memcpy_u32 BigEndian (take 4 (inbox t))), c,
                             t\<lparr>inbox := drop 4 (inbox t), sched := evs\<rparr>)"
    using receive_length_prefix_returns [OF assms] by blast
qed

theorem partial_transfers_assembled_witness:
  "open (Connection 5) \<and> partial_io (sched byte_at_a_time)
   \<and> length [1, 2, 3 :: byte] \<le> moves (sched byte_at_a_time)
   \<and> 4 \<le> length (inbox byte_at_a_time) \<and> 4 \<le> moves (sched byte_at_a_time)
   \<and> (\<exists>evs. send_data (\<lambda>e. []) [1, 2, 3] (Connection 5) byte_at_a_time
         = Some (Inr (), Connection 5, byte_at_a_time\<lparr>outbox := [1, 2, 3], sched := evs\<rparr>))
   \<and> (\<exists>evs. receive_data (\<lambda>e. []) 4 (Connection 5) byte_at_a_time
         = Some (Inr [0, 0, 1, 2], Connection 5,
                 byte_at_a_time\<lparr>inbox := [7, 9], sched := evs\<rparr>))
   \<and> (\<exists>evs. receive_length_prefix LittleEndian (\<lambda>e. []) (Connection 5) byte_at_a_time
         = Some (Inr 258, Connection 5, byte_at_a_time\<lparr>inbox := [7, 9], sched := evs\<rparr>))"
proof -
  have h1: "open (Connection 5)" by (simp add: Connection_def)
  have h2: "partial_io (sched byte_at_a_time)"
    by (simp add: byte_at_a_time_def partial_io_def EINTR_def)
  have m: "moves (sched byte_at_a_time) = 5"
    by (simp add: byte_at_a_time_def moves_def)
  have i: "inbox byte_at_a_time = [0, 0, 1, 2, 7, 9]" "outbox byte_at_a_time = []"
    by (simp_all add: byte_at_a_time_def)
  note T = partial_transfers_assembled [OF h1 h2, of "\<lambda>e. []" "[1, 2, 3]" 4 LittleEndian]
  have h3: "length [1, 2, 3 :: byte] \<le> moves (sched byte_at_a_time)" by (simp add: m)
  have h4: "4 \<le> length (inbox byte_at_a_time)" by (simp add: i)
  have h5: "4 \<le> moves (sched byte_at_a_time)" by (simp add: m)
  have s: "\<exists>evs. send_data (\<lambda>e. []) [1, 2, 3] (Connection 5) byte_at_a_time
         = Some (Inr (), Connection 5, byte_at_a_time\<lparr>outbox := [1, 2, 3], sched := evs\<rparr>)"
    using T [THEN conjunct2, THEN conjunct1, rule_format, OF h3] by (simp add: i)
  have r: "\<exists>evs. receive_data (\<lambda>e. []) 4 (Connection 5) byte_at_a_time
         = Some (Inr [0, 0, 1, 2], Connection 5,
                 byte_at_a_time\<lparr>inbox := [7, 9], sched := evs\<rparr>)"
    using T [THEN conjunct2, THEN conjunct2, THEN conjunct2, THEN conjunct1, rule_format,
             OF conjI [OF h4 h5]] by (simp add: i)
  have p: "\<exists>evs. receive_length_prefix LittleEndian (\<lambda>e. []) (Connection 5) byte_at_a_time
         = Some (Inr 258, Connection 5, byte_at_a_time\<lparr>inbox := [7, 9], sched := evs\<rparr>)"
    using T [THEN conjunct2, THEN conjunct2, THEN conjunct2, THEN conjunct2, rule_format,
             OF conjI [OF h4 h5]] by (simp add: i)
  from h1 h2 h3 h4 h5 s r p show ?thesis by (intro conjI)
qed

text \<open>
  C4, as stated, asks for the message \<^verbatim>\<open>"connection closed by peer"\<close>. The code throws
  \<^verbatim>\<open>ConnectionError("Connection closed by peer")\<close>, with a capital C: on a socket whose
  peer sent two bytes and closed, \<open>receive_data 4\<close> ends with that message and not with the
  one of the claim.
\<close>

theorem peer_close_message_counterexample:
  "receive_data strerror_sample 4 (Connection 5) peer_gone
     = Some (Inl (ConnectionError ''Connection closed by peer''),
             \<lparr>fd = 5, open = False\<rparr>, peer_gone\<lparr>inbox := [], sched := []\<rparr>)
   \<and> receive_data strerror_sample 4 (Connection 5) peer_gone
     \<noteq> Some (Inl (ConnectionError ''connection closed by peer''),
             \<lparr>fd = 5, open = False\<rparr>, peer_gone\<lparr>inbox := [], sched := []\<rparr>)"
  by (simp add: receive_data_def Connection_def peer_gone_def recv_loop.simps sys_recv_def
        store_at_def)

text \<open>
  C4, amended. Whenever a read inside \<open>receive_data\<close> returns zero bytes, in the first or in
  any later round of the loop, the call marks the connection closed (\<open>open\<close> becomes false)
  and throws \<^verbatim>\<open>ConnectionError("Connection closed by peer")\<close>; this is what
  \<open>receive_data n\<close> on an open connection gives when the peer closes after fewer than \<open>n\<close>
  bytes (\<open>n\<close> within the size a vector takes). The failure is distinct from the other
  failures of \<open>receive_data\<close>: a read that fails with an error other than \<^verbatim>\<open>EINTR\<close>, in
  any round of the loop, makes the call throw \<^verbatim>\<open>ConnectionError("Receive error: ...")\<close>,
  and a call on a connection that is not open throws
  \<^verbatim>\<open>ConnectionError("Connection is closed")\<close>; in neither case is the result the error of
  the closed peer.
\<close>

theorem peer_close_detected:
  "(tot < n \<and> sys_recv (n - tot) t = Some (Ret [], t') \<longrightarrow>
      recv_loop strerror n buffer tot c t
        = Some (Inl (ConnectionError ''Connection closed by peer''), c\<lparr>open := False\<rparr>, t'))
   \<and> (open c \<and> partial_io (sched t) \<and> length (inbox t) < n \<and> n \<le> max_size
        \<and> length (inbox t) < moves (sched t)
        \<longrightarrow> (\<exists>evs. receive_data strerror n c t
                 = Some (Inl (ConnectionError ''Connection closed by peer''), c\<lparr>open := False\<rparr>,
                         t\<lparr>inbox := [], sched := evs\<rparr>)))
   \<and> (tot < n \<and> sys_recv (n - tot) t = Some (Errno e, t') \<and> e \<noteq> EINTR \<longrightarrow>
        recv_loop strerror n buffer tot c t
          = Some (Inl (ConnectionError (''Receive error: '' @ strerror e)), c\<lparr>open := False\<rparr>, t')
      \<and> (\<forall>c'' t''. recv_loop strerror n buffer tot c t
             \<noteq> Some (Inl (ConnectionError ''Connection closed by peer''), c'', t'')))
   \<and> (\<not> open c \<longrightarrow>
        receive_data strerror n c t = Some (Inl (ConnectionError ''Connection is closed''), c, t)
      \<and> (\<forall>c'' t''. receive_data strerror n c t
             \<noteq> Some (Inl (ConnectionError ''Connection closed by peer''), c'', t'')))"
proof (intro conjI impI allI)
  assume "tot < n \<and> sys_recv (n - tot) t = Some (Ret [], t')"
  then show "recv_loop strerror n buffer tot c t
        = Some (Inl (ConnectionError ''Connection closed by peer''), c\<lparr>open := False\<rparr>, t')"
    by (simp add: recv_loop_eof)
next
  assume a: "open c \<and> partial_io (sched t) \<and> length (inbox t) < n \<and> n \<le> max_size
             \<and> length (inbox t) < moves (sched t)"
  then have "\<exists>evs. recv_loop strerror n (replicate n 0) 0 c t
         = Some (Inl (ConnectionError ''Connection closed by peer''), c\<lparr>open := False\<rparr>,
                 t\<lparr>inbox := [], sched := evs\<rparr>)"
    by (intro recv_loop_peer_closed [OF refl]) simp_all
  with a show "\<exists>evs. receive_data strerror n c t
                 = Some (Inl (ConnectionError ''Connection closed by peer''), c\<lparr>open := False\<rparr>,
                         t\<lparr>inbox := [], sched := evs\<rparr>)"
    by (simp add: receive_data_def)
next
  assume a: "tot < n \<and> sys_recv (n - tot) t = Some (Errno e, t') \<and> e \<noteq> EINTR"
  then show err: "recv_loop strerror n buffer tot c t
          = Some (Inl (ConnectionError (''Receive error: '' @ strerror e)), c\<lparr>open := False\<rparr>, t')"
    by (simp add: recv_loop_errno)
  fix c'' t''
  show "recv_loop strerror n buffer tot c t
             \<noteq> Some (Inl (ConnectionError ''Connection closed by peer''), c'', t'')"
    unfolding err by simp
next
  assume a: "\<not> open c"
  then show cl: "receive_data strerror n c t
                   = Some (Inl (ConnectionError ''Connection is closed''), c, t)"
    by (rule closed_receive_data)
  fix c'' t''
  show "receive_data strerror n c t
             \<noteq> Some (Inl (ConnectionError ''Connection closed by peer''), c'', t'')"
    unfolding cl by simp
qed

theorem peer_close_detected_witness:
  "(0 :: nat) < 4
   \<and> sys_recv (4 - 0) (peer_gone\<lparr>inbox := []\<rparr>)
       = Some (Ret [], peer_gone\<lparr>inbox := [], sched := [Xfer 4, Xfer 4]\<rparr>)
   \<and> recv_loop strerror_sample 4 [0, 0, 0, 0] 0 (Connection 5) (peer_gone\<lparr>inbox := []\<rparr>)
       = Some (Inl (ConnectionError ''Connection closed by peer''),
               (Connection 5)\<lparr>open := False\<rparr>,
               peer_gone\<lparr>inbox := [], sched := [Xfer 4, Xfer 4]\<rparr>)
   \<and> open (Connection 5) \<and> partial_io (sched peer_gone) \<and> length (inbox peer_gone) < 4
   \<and> (4 :: nat) \<le> max_size
   \<and> length (inbox peer_gone) < moves (sched peer_gone)
   \<and> (\<exists>evs. receive_data strerror_sample 4 (Connection 5) peer_gone
         = Some (Inl (ConnectionError ''Connection closed by peer''),
                 (Connection 5)\<lparr>open := False\<rparr>, peer_gone\<lparr>inbox := [], sched := evs\<rparr>))
   \<and> sys_recv (4 - 0) reset_by_peer = Some (Errno 104, reset_by_peer\<lparr>sched := []\<rparr>)
   \<and> (104 :: int) \<noteq> EINTR
   \<and> recv_loop strerror_sample 4 [0, 0, 0, 0] 0 (Connection 5) reset_by_peer
       = Some (Inl (ConnectionError (''Receive error: '' @ strerror_sample 104)),
               (Connection 5)\<lparr>open := False\<rparr>, reset_by_peer\<lparr>sched := []\<rparr>)
   \<and> \<not> open (Connection (-1))
   \<and> receive_data strerror_sample 4 (Connection (-1)) peer_gone
       = Some (Inl (ConnectionError ''Connection is closed''), Connection (-1), peer_gone)"
proof -
  have g: "(0 :: nat) < 4
           \<and> sys_recv (4 - 0) (peer_gone\<lparr>inbox := []\<rparr>)
               = Some (Ret [], peer_gone\<lparr>inbox := [], sched := [Xfer 4, Xfer 4]\<rparr>)"
    by (simp add: sys_recv_def peer_gone_def)
  have h: "open (Connection 5) \<and> partial_io (sched peer_gone) \<and> length (inbox peer_gone) < 4
           \<and> (4 :: nat) \<le> max_size \<and> length (inbox peer_gone) < moves (sched peer_gone)"
    by (simp add: Connection_def peer_gone_def partial_io_def moves_def max_size_def)
  have i: "(0 :: nat) < 4
           \<and> sys_recv (4 - 0) reset_by_peer = Some (Errno 104, reset_by_peer\<lparr>sched := []\<rparr>)
           \<and> (104 :: int) \<noteq> EINTR"
    by (simp add: sys_recv_def reset_by_peer_def EINTR_def)
  have j: "\<not> open (Connection (-1))" by (simp add: Connection_def)
  note P = peer_close_detected [where strerror = strerror_sample and n = 4]
  have r1: "recv_loop strerror_sample 4 [0, 0, 0, 0] 0 (Connection 5) (peer_gone\<lparr>inbox := []\<rparr>)
       = Some (Inl (ConnectionError ''Connection closed by peer''),
               (Connection 5)\<lparr>open := False\<rparr>,
               peer_gone\<lparr>inbox := [], sched := [Xfer 4, Xfer 4]\<rparr>)"
    by (rule P [THEN conjunct1, rule_format, OF g])
  have r2: "\<exists>evs. receive_data strerror_sample 4 (Connection 5) peer_gone
         = Some (Inl (ConnectionError ''Connection closed by peer''),
                 (Connection 5)\<lparr>open := False\<rparr>, peer_gone\<lparr>inbox := [], sched := evs\<rparr>)"
    by (rule P [THEN conjunct2, THEN conjunct1, rule_format, OF h])
  have r3: "recv_loop strerror_sample 4 [0, 0, 0, 0] 0 (Connection 5) reset_by_peer
       = Some (Inl (ConnectionError (''Receive error: '' @ strerror_sample 104)),
               (Connection 5)\<lparr>open := False\<rparr>, reset_by_peer\<lparr>sched := []\<rparr>)"
    by (rule P [THEN conjunct2, THEN conjunct2, THEN conjunct1, rule_format, OF i,
                THEN conjunct1])
  have r4: "receive_data strerror_sample 4 (Connection (-1)) peer_gone
       = Some (Inl (ConnectionError ''Connection is closed''), Connection (-1), peer_gone)"
    by (rule P [THEN conjunct2, THEN conjunct2, THEN conjunct2, rule_format, OF j,
                THEN conjunct1])
  from g r1 h r2 i r3 j r4 show ?thesis by simp
qed

text \<open>
  C5, as stated, has the flag never become true again under any sequence of operations.
  The class has a public move assignment, which gives the object the descriptor and the
  flag of another connection: an object closed by \<open>close_connection\<close> is open again after
  an open connection is move-assigned to it, and \<open>send_data\<close> on it then reaches the
  transport of that connection.
\<close>

theorem reopened_by_move_counterexample:
  "close_connection (Connection 5) quiet = (\<lparr>fd = -1, open = False\<rparr>, quiet\<lparr>released := [5]\<rparr>)
   \<and> move_assign \<lparr>fd = -1, open = False\<rparr> (quiet\<lparr>released := [5]\<rparr>) (Connection 7)
       = (\<lparr>fd = 7, open = True\<rparr>, quiet\<lparr>released := [5]\<rparr>, \<lparr>fd = -1, open = False\<rparr>)
   \<and> send_data strerror_sample [1] \<lparr>fd = 7, open = True\<rparr> byte_at_a_time
       = Some (Inr (), \<lparr>fd = 7, open = True\<rparr>,
               byte_at_a_time\<lparr>outbox := [1],
                               sched := [Fail 4, Xfer 1, Xfer 1, Fail 4, Xfer 1, Xfer 1]\<rparr>)"
  by (simp add: close_connection_def Connection_def sys_close_def quiet_def move_assign_def
        send_data_def send_loop.simps sys_send_def byte_at_a_time_def)

text \<open>
  C5, amended. Under the calls on the connection an object holds, \<open>send_data\<close>,
  \<open>receive_data\<close>, \<open>receive_length_prefix\<close>, \<open>close_connection\<close>, \<open>is_open\<close> and the
  destructor, in any sequence, the flag \<open>open\<close> never becomes true again once it is false.
  On a connection that is not open, \<open>send_data\<close> and \<open>receive_data\<close> return at once with
  \<^verbatim>\<open>ConnectionError("Connection is closed")\<close>, \<open>close_connection\<close> does nothing, and every
  run of these calls returns and leaves the connection and the socket exactly as they
  were: no call reaches the transport. From any connection, a run of these calls never
  ends open unless it began open, and it hands at most one descriptor to \<^verbatim>\<open>close\<close>, the
  connection's own. Only a move can open an object again: the move assignment releases
  the descriptor the object holds if it is open, gives the object the descriptor and the
  flag of the other connection, and leaves the other object closed without a descriptor,
  as the move constructor does; so a descriptor is still held by one open object at most.
\<close>

theorem closed_connection_inert:
  "(\<not> open c \<longrightarrow>
       send_data strerror data c t = Some (Inl (ConnectionError ''Connection is closed''), c, t)
     \<and> receive_data strerror n c t = Some (Inl (ConnectionError ''Connection is closed''), c, t)
     \<and> close_connection c t = (c, t)
     \<and> conn_run host strerror xs c t = Some (map closed_outcome xs, c, t))
   \<and> (\<forall>rs c' t'. conn_run host strerror xs c t = Some (rs, c', t') \<longrightarrow>
          (open c' \<longrightarrow> open c)
        \<and> (released t' = released t
            \<or> (open c \<and> \<not> open c' \<and> released t' = released t @ [fd c])))
   \<and> move_assign c t other
        = (\<lparr>fd = fd other, open = open other\<rparr>,
           (if open c then sys_close (fd c) t else t),
           \<lparr>fd = -1, open = False\<rparr>)
   \<and> move_construct other = (\<lparr>fd = fd other, open = open other\<rparr>, \<lparr>fd = -1, open = False\<rparr>)"
proof (intro conjI impI allI)
  assume "\<not> open c"
  then show "send_data strerror data c t = Some (Inl (ConnectionError ''Connection is closed''), c, t)"
    by (rule closed_send_data)
next
  assume "\<not> open c"
  then show "receive_data strerror n c t = Some (Inl (ConnectionError ''Connection is closed''), c, t)"
    by (rule closed_receive_data)
next
  assume "\<not> open c"
  then show "close_connection c t = (c, t)" by (rule closed_close_connection)
next
  assume "\<not> open c"
  then show "conn_run host strerror xs c t = Some (map closed_outcome xs, c, t)"
    by (rule closed_run)
next
  fix rs c' t'
  assume run: "conn_run host strerror xs c t = Some (rs, c', t')" and "open c'"
  with conn_run_frame [OF run] show "open c" by blast
next
  fix rs c' t'
  assume run: "conn_run host strerror xs c t = Some (rs, c', t')"
  from conn_run_frame [OF run]
  show "released t' = released t \<or> (open c \<and> \<not> open c' \<and> released t' = released t @ [fd c])"
    by blast
next
  show "move_assign c t other
        = (\<lparr>fd = fd other, open = open other\<rparr>,
           (if open c then sys_close (fd c) t else t),
           \<lparr>fd = -1, open = False\<rparr>)"
    by (simp add: move_assign_def close_connection_def)
next
  show "move_construct other
          = (\<lparr>fd = fd other, open = open other\<rparr>, \<lparr>fd = -1, open = False\<rparr>)"
    by (simp add: move_construct_def)
qed

theorem closed_connection_inert_witness:
  "\<not> open \<lparr>fd = -1, open = False\<rparr>
   \<and> send_data strerror_sample [1] \<lparr>fd = -1, open = False\<rparr> (quiet\<lparr>released := [5]\<rparr>)
       = Some (Inl (ConnectionError ''Connection is closed''),
               \<lparr>fd = -1, open = False\<rparr>, quiet\<lparr>released := [5]\<rparr>)
   \<and> conn_run LittleEndian strerror_sample [CloseConnection, SendData [1], CloseConnection, Destroy]
        (Connection 5) quiet
       = Some ([Done, Threw (ConnectionError ''Connection is closed''), Done, Done],
               \<lparr>fd = -1, open = False\<rparr>, quiet\<lparr>released := [5]\<rparr>)
   \<and> open (Connection 5)
   \<and> released (quiet\<lparr>released := [5]\<rparr>) = released quiet @ [fd (Connection 5)]"
proof -
  have cl: "\<not> open \<lparr>fd = -1, open = False\<rparr>" by simp
  note A = closed_connection_inert [of "\<lparr>fd = -1, open = False\<rparr>" strerror_sample "[1]"
             "quiet\<lparr>released := [5]\<rparr>" 0 LittleEndian "[]", THEN conjunct1, rule_format, OF cl]
  note B = closed_connection_inert [of "Connection 5" strerror_sample "[]" quiet 0 LittleEndian
             "[CloseConnection, SendData [1], CloseConnection, Destroy]",
             THEN conjunct2, THEN conjunct1, rule_format, OF quiet_run]
  have op: "open (Connection 5)" by (simp add: Connection_def)
  have "released (quiet\<lparr>released := [5]\<rparr>) \<noteq> released quiet" by (simp add: quiet_def)
  with B have rel: "released (quiet\<lparr>released := [5]\<rparr>) = released quiet @ [fd (Connection 5)]"
    by blast
  from cl A [THEN conjunct1] quiet_run op rel show ?thesis by (intro conjI)
qed

text \<open>
  C6, as stated, has \<open>register_function\<close> fail for every call made after the server
  entered the listening state, and every call before that make its handler visible. The
  guard of the code is the running flag: \<open>stop\<close> clears it, so a call made after
  \<open>start\<close> and \<open>stop\<close> registers its handler. And a call before \<open>start\<close> with a name
  already registered returns without binding the new handler; the name keeps the first
  one, which answers differently.
\<close>

theorem registration_counterexample:
  "RPCServer 8080 = Inr created
   \<and> start (Inr 3) registered = Inr listening \<and> running listening
   \<and> register_function ''late'' relay (stop listening)
       = Inr ((stop listening)\<lparr>function_registry := (function_registry listening)(''late'' \<mapsto> relay)\<rparr>,
              [Cout ''Registered function: late''])
   \<and> \<not> running created
   \<and> register_function ''echo'' echo created
       = Inr (created\<lparr>function_registry := [''echo'' \<mapsto> echo]\<rparr>, [Cout ''Registered function: echo''])
   \<and> register_function ''echo'' relay (created\<lparr>function_registry := [''echo'' \<mapsto> echo]\<rparr>)
       = Inr (created\<lparr>function_registry := [''echo'' \<mapsto> echo]\<rparr>,
              [Cerr (''Warning: Function '' @ [CHR 0x27] @ ''echo'' @ [CHR 0x27]
                     @ '' already registered'')])
   \<and> relay (JArray [JInt 7]) \<noteq> echo (JArray [JInt 7])"
  by (simp add: RPCServer_def start_def stop_def register_function_def count_def listening_def
        registered_def created_def echo_def relay_def)

text \<open>
  C6, amended. \<open>register_function\<close> throws \<^verbatim>\<open>std::runtime_error\<close> ("Cannot register
  functions while server is running") on every call made while the server is running,
  that is between \<open>start\<close> and \<open>stop\<close>. Every call made while it is not running returns
  without throwing: with a name not yet registered it binds the handler, the binding
  survives every later run of calls on the server (\<open>register_function\<close>, \<open>start\<close>, \<open>stop\<close>,
  requests), and every later request that calls the name gets what the handler gives;
  with a name already registered it changes nothing and prints a warning.
\<close>

theorem registration_gate:
  "(running s \<longrightarrow>
      register_function name func s
        = Inl (RuntimeError ''Cannot register functions while server is running''))
   \<and> (\<not> running s \<and> function_registry s name = None \<longrightarrow>
        register_function name func s
          = Inr (s\<lparr>function_registry := (function_registry s)(name \<mapsto> func)\<rparr>,
                 [Cout (''Registered function: '' @ name)])
      \<and> function_registry
            (server_run J (s\<lparr>function_registry := (function_registry s)(name \<mapsto> func)\<rparr>) xs) name
          = Some func
      \<and> (calls J request name args \<longrightarrow>
            process_json_request J request
              (server_run J (s\<lparr>function_registry := (function_registry s)(name \<mapsto> func)\<rparr>) xs)
            = catch_clauses J
                (case func args of
                   Inl e \<Rightarrow>
                     (Inl e, server_run J
                        (s\<lparr>function_registry := (function_registry s)(name \<mapsto> func)\<rparr>) xs)
                 | Inr result \<Rightarrow>
                     (Inr (serialize_response J (success_response result)),
                      server_run J
                        (s\<lparr>function_registry := (function_registry s)(name \<mapsto> func)\<rparr>) xs))))
   \<and> (\<not> running s \<and> function_registry s name = Some old \<longrightarrow>
        register_function name func s
          = Inr (s, [Cerr (''Warning: Function '' @ [CHR 0x27] @ name @ [CHR 0x27]
                           @ '' already registered'')]))"
proof (intro conjI impI)
  assume "running s"
  then show "register_function name func s
        = Inl (RuntimeError ''Cannot register functions while server is running'')"
    by (simp add: register_function_def)
next
  assume "\<not> running s \<and> function_registry s name = None"
  then show "register_function name func s
          = Inr (s\<lparr>function_registry := (function_registry s)(name \<mapsto> func)\<rparr>,
                 [Cout (''Registered function: '' @ name)])"
    by (simp add: register_function_def count_def)
next
  let ?s = "s\<lparr>function_registry := (function_registry s)(name \<mapsto> func)\<rparr>"
  have "function_registry ?s name = Some func" by simp
  then show bound: "function_registry (server_run J ?s xs) name = Some func"
    by (rule server_run_keeps)
  assume "calls J request name args"
  then have "process_json_request J request (server_run J ?s xs)
               = catch_clauses J (try_block J name args (server_run J ?s xs))"
    by (rule calls_dispatch)
  then show "process_json_request J request (server_run J ?s xs)
            = catch_clauses J
                (case func args of
                   Inl e \<Rightarrow> (Inl e, server_run J ?s xs)
                 | Inr result \<Rightarrow>
                     (Inr (serialize_response J (success_response result)), server_run J ?s xs))"
    by (simp add: try_block_hit [OF bound])
next
  assume "\<not> running s \<and> function_registry s name = Some old"
  then show "register_function name func s
          = Inr (s, [Cerr (''Warning: Function '' @ [CHR 0x27] @ name @ [CHR 0x27]
                           @ '' already registered'')])"
    by (simp add: register_function_def count_def)
qed

theorem registration_gate_witness:
  "running listening
   \<and> register_function ''late'' relay listening
       = Inl (RuntimeError ''Cannot register functions while server is running'')
   \<and> \<not> running created \<and> function_registry created ''echo'' = None
   \<and> register_function ''echo'' echo created
       = Inr (created\<lparr>function_registry := (function_registry created)(''echo'' \<mapsto> echo)\<rparr>,
              [Cout (''Registered function: '' @ ''echo'')])
   \<and> calls sample_json echo_request ''echo'' (JArray [JInt 7])
   \<and> fst (process_json_request sample_json echo_request
            (server_run sample_json
               (created\<lparr>function_registry := (function_registry created)(''echo'' \<mapsto> echo)\<rparr>)
               [Register ''echo'' relay, Start (Inr 3), Request missing_request, Stop]))
       = Inr (serialize_response sample_json (success_response (JInt 7)))
   \<and> \<not> running registered \<and> function_registry registered ''echo'' = Some echo
   \<and> register_function ''echo'' relay registered
       = Inr (registered, [Cerr (''Warning: Function '' @ [CHR 0x27] @ ''echo'' @ [CHR 0x27]
                                 @ '' already registered'')])"
proof -
  have a: "running listening" by (simp add: sample_registry)
  have b: "\<not> running created \<and> function_registry created ''echo'' = None"
    by (simp add: created_def)
  have c: "calls sample_json echo_request ''echo'' (JArray [JInt 7])"
    by (rule sample_calls)
  have d: "\<not> running registered \<and> function_registry registered ''echo'' = Some echo"
    by (simp add: sample_registry)
  have e: "echo (JArray [JInt 7]) = Inr (JInt 7)" by (simp add: echo_def)
  note G1 = registration_gate [of listening "''late''" relay, THEN conjunct1, rule_format, OF a]
  note G2 = registration_gate [of created "''echo''" echo sample_json
              "[Register ''echo'' relay, Start (Inr 3), Request missing_request, Stop]"
              echo_request "JArray [JInt 7]",
              THEN conjunct2, THEN conjunct1, rule_format, OF b]
  note G3 = registration_gate [of registered "''echo''" relay _ _ _ _ echo,
              THEN conjunct2, THEN conjunct2, rule_format, OF d]
  from G2 have r: "register_function ''echo'' echo created
       = Inr (created\<lparr>function_registry := (function_registry created)(''echo'' \<mapsto> echo)\<rparr>,
              [Cout (''Registered function: '' @ ''echo'')])"
    by (rule conjunct1)
  from G2 [THEN conjunct2, THEN conjunct2, rule_format, OF c]
  have p: "fst (process_json_request sample_json echo_request
            (server_run sample_json
               (created\<lparr>function_registry := (function_registry created)(''echo'' \<mapsto> echo)\<rparr>)
               [Register ''echo'' relay, Start (Inr 3), Request missing_request, Stop]))
       = Inr (serialize_response sample_json (success_response (JInt 7)))"
    by (simp add: e catch_response)
  from a G1 b r c p d G3 show ?thesis by (intro conjI) (erule conjunct1 conjunct2 | assumption)+
qed

text \<open>
  C7, as stated, holds for every state in which the name is registered. While the server
  is running the guard on the running flag comes first, and the second call throws.
\<close>

theorem duplicate_registration_running_counterexample:
  "function_registry listening ''echo'' = Some echo
   \<and> register_function ''echo'' relay listening
       = Inl (RuntimeError ''Cannot register functions while server is running'')"
  by (simp add: sample_registry register_function_def)

text \<open>
  C7, amended. In every state of a server in which \<open>name\<close> is registered, a second
  \<open>register_function\<close> call with the same name leaves the first handler bound to the name
  (the new handler is discarded); while the server is not running the call does not throw,
  changes nothing at all, and prints the warning on the error stream.
\<close>

theorem duplicate_registration_kept:
  "function_registry s name = Some old \<longrightarrow>
     (\<not> running s \<longrightarrow>
        register_function name new s
          = Inr (s, [Cerr (''Warning: Function '' @ [CHR 0x27] @ name @ [CHR 0x27]
                           @ '' already registered'')]))
   \<and> function_registry (server_step J s (Register name new)) name = Some old"
proof (intro impI conjI)
  assume bound: "function_registry s name = Some old" and idle: "\<not> running s"
  from bound have "count (function_registry s) name \<noteq> 0" by (simp add: count_def)
  with idle show "register_function name new s
          = Inr (s, [Cerr (''Warning: Function '' @ [CHR 0x27] @ name @ [CHR 0x27]
                           @ '' already registered'')])"
    by (simp add: register_function_def)
next
  assume "function_registry s name = Some old"
  then show "function_registry (server_step J s (Register name new)) name = Some old"
    by (rule server_step_keeps)
qed

theorem duplicate_registration_kept_witness:
  "function_registry registered ''echo'' = Some echo \<and> \<not> running registered
   \<and> register_function ''echo'' relay registered
       = Inr (registered, [Cerr (''Warning: Function '' @ [CHR 0x27] @ ''echo'' @ [CHR 0x27]
                                 @ '' already registered'')])
   \<and> function_registry (server_step sample_json registered (Register ''echo'' relay)) ''echo''
       = Some echo"
proof -
  have h: "function_registry registered ''echo'' = Some echo" "\<not> running registered"
    by (simp_all add: sample_registry)
  from duplicate_registration_kept [of registered "''echo''" echo relay sample_json] h
  show ?thesis by blast
qed

text \<open>
  C8. The length prefix round-trips: the four big-endian bytes of any 32-bit length \<open>n\<close>,
  read back by \<open>receive_length_prefix\<close> (on either kind of host, and however the socket
  splits them), give \<open>n\<close> again. Hence the worker's two reads recover the payload of a
  framed message, whatever bytes the payload holds, and leave what follows it in the
  stream; the payload's length is below \<open>2 ^ 32\<close>, as the 32-bit length field of the frame
  requires.
\<close>

theorem framing_round_trip:
  "ntohl host (memcpy_u32 host (be32_bytes n)) = n
   \<and> (open c \<and> partial_io (sched t) \<and> inbox t = be32_bytes n @ rest \<and> 4 \<le> moves (sched t)
        \<longrightarrow> (\<exists>evs. receive_length_prefix host strerror c t
                 = Some (Inr n, c, t\<lparr>inbox := rest, sched := evs\<rparr>)))
   \<and> (open c \<and> partial_io (sched t) \<and> inbox t = frame payload @ rest
        \<and> length payload < 2 ^ 32 \<and> 4 + length payload \<le> moves (sched t)
        \<longrightarrow> (\<exists>evs. read_message host strerror c t
                 = Some (Inr payload, c, t\<lparr>inbox := rest, sched := evs\<rparr>)))"
proof (intro conjI impI)
  show "ntohl host (memcpy_u32 host (be32_bytes n)) = n"
    by (simp add: ntohl_memcpy length_be32_bytes memcpy_be32_bytes)
next
  assume a: "open c \<and> partial_io (sched t) \<and> inbox t = be32_bytes n @ rest
             \<and> 4 \<le> moves (sched t)"
  then have "4 \<le> length (inbox t)" by (simp add: length_be32_bytes)
  with a receive_length_prefix_returns [of c t host strerror]
  show "\<exists>evs. receive_length_prefix host strerror c t
                 = Some (Inr n, c, t\<lparr>inbox := rest, sched := evs\<rparr>)"
    by (simp add: length_be32_bytes memcpy_be32_bytes)
next
  assume "open c \<and> partial_io (sched t) \<and> inbox t = frame payload @ rest
          \<and> length payload < 2 ^ 32 \<and> 4 + length payload \<le> moves (sched t)"
  then show "\<exists>evs. read_message host strerror c t
                 = Some (Inr payload, c, t\<lparr>inbox := rest, sched := evs\<rparr>)"
    using read_message_frame by blast
qed

theorem framing_round_trip_witness:
  "open (Connection 5) \<and> partial_io (sched byte_at_a_time)
   \<and> inbox byte_at_a_time = be32_bytes 258 @ [7, 9] \<and> 4 \<le> moves (sched byte_at_a_time)
   \<and> (\<exists>evs. receive_length_prefix LittleEndian strerror_sample (Connection 5) byte_at_a_time
          = Some (Inr 258, Connection 5, byte_at_a_time\<lparr>inbox := [7, 9], sched := evs\<rparr>))
   \<and> partial_io (sched one_frame) \<and> inbox one_frame = frame [7, 9] @ [5]
   \<and> length [7, 9 :: byte] < 2 ^ 32 \<and> 4 + length [7, 9 :: byte] \<le> moves (sched one_frame)
   \<and> (\<exists>evs. read_message BigEndian strerror_sample (Connection 5) one_frame
          = Some (Inr [7, 9], Connection 5, one_frame\<lparr>inbox := [5], sched := evs\<rparr>))"
proof -
  have op: "open (Connection 5)" by (simp add: Connection_def)
  have a: "partial_io (sched byte_at_a_time)"
    by (simp add: byte_at_a_time_def partial_io_def EINTR_def)
  have b: "inbox byte_at_a_time = be32_bytes 258 @ [7, 9]"
    by (simp add: byte_at_a_time_def be32_bytes_def)
  have c: "4 \<le> moves (sched byte_at_a_time)"
    by (simp add: byte_at_a_time_def moves_def)
  have d: "partial_io (sched one_frame)"
    by (simp add: one_frame_def partial_io_def EINTR_def)
  have e: "inbox one_frame = frame [7, 9] @ [5]"
    by (simp add: one_frame_def frame_def be32_bytes_def)
  have f: "length [7, 9 :: byte] < 2 ^ 32" by simp
  have g: "4 + length [7, 9 :: byte] \<le> moves (sched one_frame)"
    by (simp add: one_frame_def moves_def)
  note R = framing_round_trip [of LittleEndian 258 "Connection 5" byte_at_a_time "[7, 9]"
             strerror_sample]
  note S = framing_round_trip [of BigEndian 0 "Connection 5" one_frame "[5]" strerror_sample
             "[7, 9]"]
  have p: "\<exists>evs. receive_length_prefix LittleEndian strerror_sample (Connection 5) byte_at_a_time
          = Some (Inr 258, Connection 5, byte_at_a_time\<lparr>inbox := [7, 9], sched := evs\<rparr>)"
    using R [THEN conjunct2, THEN conjunct1] op a b c by blast
  have q: "\<exists>evs. read_message BigEndian strerror_sample (Connection 5) one_frame
          = Some (Inr [7, 9], Connection 5, one_frame\<lparr>inbox := [5], sched := evs\<rparr>)"
    using S [THEN conjunct2, THEN conjunct2] op d e f g by blast
  from op a b c p d e f g q show ?thesis by (intro conjI)
qed

text \<open>
  C9. \<open>process_json_request\<close> leaves the server, and so the registry, exactly as it was, for
  every request text, whether the function it names is registered or not: the subscript
  of the registry, which would insert a missing key, is reached only for a key that is
  present. And while the server is running no run of calls other than \<open>stop\<close>
  (\<open>register_function\<close>, \<open>start\<close>, requests) changes it.
\<close>

theorem dispatch_keeps_registry:
  "snd (process_json_request J request s) = s
   \<and> function_registry (snd (process_json_request J request s)) = function_registry s
   \<and> (running s \<and> Stop \<notin> set xs \<longrightarrow> server_run J s xs = s)"
proof (intro conjI impI)
  show same: "snd (process_json_request J request s) = s"
    by (rule process_json_request_server)
  then show "function_registry (snd (process_json_request J request s)) = function_registry s"
    by simp
next
  assume "running s \<and> Stop \<notin> set xs"
  then show "server_run J s xs = s" by (simp add: running_run)
qed

theorem dispatch_keeps_registry_witness:
  "running listening
   \<and> Stop \<notin> set [Request echo_request, Request missing_request, Register ''late'' echo,
                    Start (Inr 9), Request malformed_request]
   \<and> server_run sample_json listening
         [Request echo_request, Request missing_request, Register ''late'' echo,
          Start (Inr 9), Request malformed_request] = listening
   \<and> snd (process_json_request sample_json missing_request listening) = listening"
proof -
  have h: "running listening
           \<and> Stop \<notin> set [Request echo_request, Request missing_request, Register ''late'' echo,
                            Start (Inr 9), Request malformed_request]"
    by (simp add: sample_registry)
  from dispatch_keeps_registry [of sample_json missing_request listening
         "[Request echo_request, Request missing_request, Register ''late'' echo,
           Start (Inr 9), Request malformed_request]"] h
  show ?thesis by blast
qed

text \<open>
  C10. A connection constructed from a negative descriptor is not open; \<open>send_data\<close> and
  \<open>receive_data\<close> on it, at once or after any run of operations, throw
  \<^verbatim>\<open>ConnectionError("Connection is closed")\<close> and leave the socket untouched, and
  \<open>close_connection\<close> and the destructor release nothing.
\<close>

theorem negative_descriptor_closed:
  assumes "socket_fd < 0"
  shows "\<not> is_open (Connection socket_fd)
       \<and> send_data strerror data (Connection socket_fd) t
           = Some (Inl (ConnectionError ''Connection is closed''), Connection socket_fd, t)
       \<and> receive_data strerror n (Connection socket_fd) t
           = Some (Inl (ConnectionError ''Connection is closed''), Connection socket_fd, t)
       \<and> close_connection (Connection socket_fd) t = (Connection socket_fd, t)
       \<and> destructor (Connection socket_fd) t = (Connection socket_fd, t)
       \<and> conn_run host strerror xs (Connection socket_fd) t
           = Some (map closed_outcome xs, Connection socket_fd, t)"
proof -
  have cl: "\<not> open (Connection socket_fd)" using assms by (simp add: Connection_def)
  then show ?thesis
    by (simp add: is_open_def closed_send_data closed_receive_data closed_close_connection
          closed_destructor closed_run)
qed

theorem negative_descriptor_closed_witness:
  "(-1 :: int) < 0
   \<and> \<not> is_open (Connection (-1))
   \<and> send_data strerror_sample [1, 2] (Connection (-1)) byte_at_a_time
       = Some (Inl (ConnectionError ''Connection is closed''), Connection (-1), byte_at_a_time)
   \<and> receive_data strerror_sample 4 (Connection (-1)) byte_at_a_time
       = Some (Inl (ConnectionError ''Connection is closed''), Connection (-1), byte_at_a_time)
   \<and> close_connection (Connection (-1)) byte_at_a_time = (Connection (-1), byte_at_a_time)
   \<and> destructor (Connection (-1)) byte_at_a_time = (Connection (-1), byte_at_a_time)"
proof -
  have neg: "(-1 :: int) < 0" by simp
  note N = negative_descriptor_closed [OF neg, of strerror_sample "[1, 2]" byte_at_a_time 4
             LittleEndian "[]"]
  from neg N show ?thesis by (intro conjI) (elim conjE, assumption)+
qed

end
